theory Spec2Isabelle
  imports Complex_Main
begin

section \<open>Numbers and geometry primitives (src/utils/math.js)\<close>

text \<open>
  In the geometry of boxes and anchors, JavaScript numbers are modelled as mathematical
  reals: comparisons, \<open>Math.max\<close>, \<open>Math.min\<close>, \<open>Math.abs\<close> and \<open>Math.round\<close> are
  exact on finite numbers, and the arithmetic is taken without rounding error. The
  vector utilities, whose properties depend on the binary64 rounding of \<open>+\<close>, \<open>*\<close>,
  \<open>/\<close> and \<open>Math.sqrt\<close> and on overflow, compute on \<open>jsnum\<close>, which has the
  infinities and \<open>NaN\<close>, and take the rounding as an explicit parameter (see the
  rounded arithmetic below).

  \<open>Math.round\<close> rounds to the nearest integer, ties towards plus infinity.
\<close>

definition Math_round :: "real \<Rightarrow> real" where
  "Math_round v = of_int \<lfloor>v + 1 / 2\<rfloor>"

text \<open>\<open>clamp(value, min, max) = Math.min(Math.max(value, min), max)\<close>\<close>

definition clamp :: "real \<Rightarrow> real \<Rightarrow> real \<Rightarrow> real" where
  "clamp v lo hi = min (max v lo) hi"

record bounding_box =
  box_x :: real
  box_y :: real
  box_width :: real
  box_height :: real

record detection = bounding_box +
  score :: real

definition calculateIOU :: "'a bounding_box_scheme \<Rightarrow> 'b bounding_box_scheme \<Rightarrow> real" where
  "calculateIOU boxA boxB =
     (let x1 = max (box_x boxA) (box_x boxB);
          y1 = max (box_y boxA) (box_y boxB);
          x2 = min (box_x boxA + box_width boxA) (box_x boxB + box_width boxB);
          y2 = min (box_y boxA + box_height boxA) (box_y boxB + box_height boxB);
          w = max 0 (x2 - x1);
          h = max 0 (y2 - y1);
          intersection = w * h;
          areaA = box_width boxA * box_height boxA;
          areaB = box_width boxB * box_height boxB;
          union = areaA + areaB - intersection
      in if union \<le> 0 then 0 else intersection / union)"

section \<open>Configuration and errors (src/config/index.js, src/constants/errors.js)\<close>

text \<open>
  The values read from the process environment, already parsed:
  \<open>SIM_THRESHOLD\<close>, \<open>FACE_EXPAND_RATIO\<close>, \<open>SQUARE_CROP\<close>, \<open>ARC_TTA_FLIP\<close>
  and \<open>ARC_CHANNEL_ORDER\<close> (upper-cased).
  \<open>default_environment\<close> is the configuration with no variable set.
\<close>

record environment =
  SIM_THRESHOLD :: real
  FACE_EXPAND_RATIO :: real
  SQUARE_CROP :: bool
  ARC_TTA_FLIP :: bool
  ARC_CHANNEL_ORDER :: string

definition default_environment :: environment where
  "default_environment =
     \<lparr>SIM_THRESHOLD = 45 / 100, FACE_EXPAND_RATIO = 10 / 100, SQUARE_CROP = True,
      ARC_TTA_FLIP = True, ARC_CHANNEL_ORDER = ''RGB''\<rparr>"

record face_detection_config =
  targetSize :: real
  confidenceThreshold :: real
  nmsThreshold :: real
  minFaceSize :: real
  maxFaceSize :: real
  minPixelSize :: real
  edgeMarginRatio :: real
  aspectRatioMin :: real
  aspectRatioMax :: real

definition config_faceDetection :: face_detection_config where
  "config_faceDetection =
     \<lparr>targetSize = 128, confidenceThreshold = 5 / 10, nmsThreshold = 5 / 10,
      minFaceSize = 2 / 100, maxFaceSize = 8 / 10, minPixelSize = 20,
      edgeMarginRatio = 5 / 100, aspectRatioMin = 6 / 10, aspectRatioMax = 18 / 10\<rparr>"

text \<open>
  \<open>config.faceRecognition\<close> has exactly these five properties. It has no
  \<open>minPixelSize\<close>: that property belongs to \<open>config.faceDetection\<close>.
\<close>

record face_recognition_config =
  similarityThreshold :: real
  faceExpandRatio :: real
  maxExpandRatio :: real
  useSquareCrop :: bool
  embeddingDimension :: nat

definition config_faceRecognition :: "environment \<Rightarrow> face_recognition_config" where
  "config_faceRecognition env =
     \<lparr>similarityThreshold = SIM_THRESHOLD env, faceExpandRatio = FACE_EXPAND_RATIO env,
      maxExpandRatio = 20 / 100, useSquareCrop = SQUARE_CROP env, embeddingDimension = 512\<rparr>"

record face_scoring_config =
  weight_detectionConfidence :: real
  weight_centrality :: real
  weight_sizeRatio :: real

definition config_faceScoring :: face_scoring_config where
  "config_faceScoring =
     \<lparr>weight_detectionConfidence = 65 / 100, weight_centrality = 25 / 100,
      weight_sizeRatio = 10 / 100\<rparr>"

text \<open>
  The result of reading a numeric property of an object: the number, or \<open>undefined\<close>
  when the object has no such property. \<open>a < undefined\<close> converts \<open>undefined\<close> to
  \<open>NaN\<close> and is false.
\<close>

datatype property_value = Undefined | Number real

definition js_less :: "real \<Rightarrow> property_value \<Rightarrow> bool" where
  "js_less a v = (case v of Undefined \<Rightarrow> False | Number b \<Rightarrow> a < b)"

text \<open>\<open>cfg.minPixelSize\<close> for \<open>cfg = config.faceRecognition\<close>: the property is absent.\<close>

definition faceRecognition_minPixelSize :: "face_recognition_config \<Rightarrow> property_value" where
  "faceRecognition_minPixelSize cfg = Undefined"

datatype error_type = ValidationError | DetectionError | ProcessingError | ModelError | InternalError

datatype app_error = AppError (message: string) (error_name: error_type) (statusCode: nat)

definition NO_FACE_DETECTED :: string where
  "NO_FACE_DETECTED = ''No face detected. Please provide a clear image with a visible face.''"

definition FACE_TOO_SMALL :: string where
  "FACE_TOO_SMALL =
     ''Detected face is too small. Please provide a clearer image with a larger face.''"

definition INVALID_EMBEDDING_FORMAT :: string where
  "INVALID_EMBEDDING_FORMAT = ''storedEmbedding must be an array of 512 numbers''"

definition INVALID_EMBEDDING_VALUES :: string where
  "INVALID_EMBEDDING_VALUES = ''storedEmbedding must contain only valid numbers''"

section \<open>Non-maximum suppression (src/services/faceDetectionService.js)\<close>

text \<open>\<open>sorted.splice(i, 1)\<close>: remove the element at index \<open>i\<close>.\<close>

definition splice1 :: "nat \<Rightarrow> 'a list \<Rightarrow> 'a list" where
  "splice1 i xs = take i xs @ drop (Suc i) xs"

text \<open>
  The inner loop \<open>for (let i = sorted.length - 1; i >= 0; i--)\<close>: the counter \<open>n\<close> is
  \<open>i + 1\<close>, the number of positions still to visit, so the loop starts at
  \<open>n = sorted.length\<close> and visits index \<open>n - 1\<close> at each step.
\<close>

fun remove_overlapping :: "real \<Rightarrow> detection \<Rightarrow> detection list \<Rightarrow> nat \<Rightarrow> detection list" where
  "remove_overlapping threshold current srt 0 = srt"
| "remove_overlapping threshold current srt (Suc i) =
     remove_overlapping threshold current
       (if calculateIOU current (srt ! i) > threshold then splice1 i srt else srt) i"

lemma length_remove_overlapping:
  "length (remove_overlapping threshold current srt n) \<le> length srt"
proof (induction n arbitrary: srt)
  case 0
  show ?case by simp
next
  case (Suc n)
  have "length (splice1 n srt) \<le> length srt"
    by (simp add: splice1_def)
  with Suc.IH [of "splice1 n srt"] Suc.IH [of srt] show ?case
    by (auto intro: order_trans)
qed

text \<open>
  The outer loop \<open>while (sorted.length) { current = sorted.shift(); kept.push(current); ... }\<close>
  as a recursion on the pair (kept, sorted).
\<close>

function nms_loop :: "real \<Rightarrow> detection list \<Rightarrow> detection list \<Rightarrow> detection list" where
  "nms_loop threshold kept [] = kept"
| "nms_loop threshold kept (current # rest) =
     nms_loop threshold (kept @ [current])
       (remove_overlapping threshold current rest (length rest))"
  by pat_completeness auto
termination
  by (relation "measure (\<lambda>(threshold, kept, srt). length srt)")
     (auto simp: length_remove_overlapping less_Suc_eq_le)

text \<open>
  \<open>boxes.slice().sort((a, b) => b.score - a.score)\<close>: a stable sort by descending score
  (\<open>Array.prototype.sort\<close> is stable), written as the stable insertion sort on the
  negated score.
\<close>

definition sort_by_score_desc :: "detection list \<Rightarrow> detection list" where
  "sort_by_score_desc boxes = sort_key (\<lambda>b. - score b) boxes"

text \<open>
  The parameter \<open>threshold = config.faceDetection.nmsThreshold\<close>: the argument when one
  is passed (\<open>Some\<close>), the configured default otherwise.
\<close>

definition threshold_used :: "real option \<Rightarrow> real" where
  "threshold_used threshold =
     (case threshold of None \<Rightarrow> nmsThreshold config_faceDetection | Some t \<Rightarrow> t)"

definition applyNMS :: "detection list \<Rightarrow> real option \<Rightarrow> detection list" where
  "applyNMS boxes threshold = nms_loop (threshold_used threshold) [] (sort_by_score_desc boxes)"

section \<open>Bounding-box geometry (src/services/faceProcessingService.js)\<close>

definition expandBoundingBox ::
    "'a bounding_box_scheme \<Rightarrow> real \<Rightarrow> real \<Rightarrow> real \<Rightarrow> bounding_box" where
  "expandBoundingBox box imageWidth imageHeight expandRatio =
     (let expandX = Math_round (box_width box * expandRatio / 2);
          expandY = Math_round (box_height box * expandRatio / 2)
      in \<lparr>box_x = clamp (box_x box - expandX) 0 imageWidth,
          box_y = clamp (box_y box - expandY) 0 imageHeight,
          box_width = min (imageWidth - (box_x box - expandX)) (box_width box + 2 * expandX),
          box_height = min (imageHeight - (box_y box - expandY)) (box_height box + 2 * expandY)\<rparr>)"

definition makeSquareBoundingBox ::
    "'a bounding_box_scheme \<Rightarrow> real \<Rightarrow> real \<Rightarrow> bounding_box" where
  "makeSquareBoundingBox box imageWidth imageHeight =
     (let centerX = box_x box + box_width box / 2;
          centerY = box_y box + box_height box / 2;
          side = Math_round (max (box_width box) (box_height box));
          x0 = Math_round (centerX - side / 2);
          y0 = Math_round (centerY - side / 2);
          x1 = clamp x0 0 (imageWidth - side);
          y1 = clamp y0 0 (imageHeight - side)
      in \<lparr>box_x = max 0 x1, box_y = max 0 y1,
          box_width = min side imageWidth, box_height = min side imageHeight\<rparr>)"

definition processBoundingBox ::
    "environment \<Rightarrow> 'a bounding_box_scheme \<Rightarrow> real \<Rightarrow> real \<Rightarrow> app_error + bounding_box" where
  "processBoundingBox env box imageWidth imageHeight =
     (let cfg = config_faceRecognition env;
          expandRatio = min (maxExpandRatio cfg) (faceExpandRatio cfg);
          expanded = expandBoundingBox box imageWidth imageHeight expandRatio;
          processedBox =
            (if useSquareCrop cfg then makeSquareBoundingBox expanded imageWidth imageHeight
             else expanded)
      in if js_less (box_width processedBox) (faceRecognition_minPixelSize cfg)
            \<or> js_less (box_height processedBox) (faceRecognition_minPixelSize cfg)
         then Inl (AppError FACE_TOO_SMALL DetectionError 400)
         else Inr processedBox)"

section \<open>Face candidate selection (src/services/faceProcessingService.js)\<close>

text \<open>
  A box handed to \<open>selectBestFace\<close>: normalized coordinates and a score that may be
  missing (\<open>box.score ?? 0.5\<close>).
\<close>

record face_box = bounding_box +
  score_opt :: "real option"

record pixel_face = bounding_box +
  face_score :: real

record scored_face = pixel_face +
  compositeScore :: real

text \<open>The first \<open>map\<close>: normalized coordinates to pixels, clamped to the image.\<close>

definition to_pixel_box :: "real \<Rightarrow> real \<Rightarrow> face_box \<Rightarrow> pixel_face" where
  "to_pixel_box imageWidth imageHeight box =
     (let x0 = max 0 (Math_round (box_x box * imageWidth));
          y0 = max 0 (Math_round (box_y box * imageHeight));
          w0 = max 1 (Math_round (box_width box * imageWidth));
          h0 = max 1 (Math_round (box_height box * imageHeight));
          w1 = (if x0 + w0 > imageWidth then imageWidth - x0 else w0);
          h1 = (if y0 + h0 > imageHeight then imageHeight - y0 else h0)
      in \<lparr>box_x = x0, box_y = y0, box_width = w1, box_height = h1,
          face_score = (case score_opt box of None \<Rightarrow> 5 / 10 | Some s \<Rightarrow> s)\<rparr>)"

text \<open>The \<open>filter\<close>: size, edge margin and aspect ratio, in the order of the source.\<close>

definition passes_filters :: "real \<Rightarrow> real \<Rightarrow> pixel_face \<Rightarrow> bool" where
  "passes_filters imageWidth imageHeight box =
     (let cfg = config_faceDetection;
          minSize = max (minPixelSize cfg) (min imageWidth imageHeight * (8 / 100));
          maxSize = min imageWidth imageHeight * (65 / 100);
          edgeMargin_x = imageWidth * edgeMarginRatio cfg;
          edgeMargin_y = imageHeight * edgeMarginRatio cfg
      in if box_width box < minSize \<or> box_height box < minSize then False
         else if box_width box > maxSize \<or> box_height box > maxSize then False
         else if box_x box < edgeMargin_x \<or> box_y box < edgeMargin_y then False
         else if box_x box + box_width box > imageWidth - edgeMargin_x then False
         else if box_y box + box_height box > imageHeight - edgeMargin_y then False
         else (let aspectRatio = box_width box / box_height box
               in aspectRatio \<ge> aspectRatioMin cfg \<and> aspectRatio \<le> aspectRatioMax cfg))"

text \<open>The second \<open>map\<close>: the composite score.\<close>

definition add_composite_score :: "real \<Rightarrow> real \<Rightarrow> pixel_face \<Rightarrow> scored_face" where
  "add_composite_score imageWidth imageHeight box =
     (let centerX = box_x box + box_width box / 2;
          centerY = box_y box + box_height box / 2;
          dx = \<bar>centerX - imageWidth / 2\<bar> / (imageWidth / 2);
          dy = \<bar>centerY - imageHeight / 2\<bar> / (imageHeight / 2);
          centrality = 1 - min 1 (sqrt (dx * dx + dy * dy));
          sizeRatio = min 1 ((box_width box * box_height box) / (imageWidth * imageHeight));
          weights = config_faceScoring
      in \<lparr>box_x = box_x box, box_y = box_y box, box_width = box_width box,
          box_height = box_height box, face_score = face_score box,
          compositeScore =
            weight_detectionConfidence weights * face_score box
            + weight_centrality weights * centrality
            + weight_sizeRatio weights * sizeRatio\<rparr>)"

text \<open>
  \<open>boxes\<close> may be \<open>null\<close> (\<open>None\<close>). The final sort is the stable sort by descending
  composite score; \<open>candidates[0]\<close> is its first element.
\<close>

definition selectBestFace :: "face_box list option \<Rightarrow> real \<Rightarrow> real \<Rightarrow> scored_face option" where
  "selectBestFace boxes imageWidth imageHeight =
     (case boxes of
        None \<Rightarrow> None
      | Some bs \<Rightarrow>
          if length bs = 0 then None
          else (let candidates =
                      map (add_composite_score imageWidth imageHeight)
                        (filter (passes_filters imageWidth imageHeight)
                          (map (to_pixel_box imageWidth imageHeight) bs))
                in if length candidates = 0 then None
                   else (case sort_key (\<lambda>c. - compositeScore c) candidates of
                           [] \<Rightarrow> None
                         | best # _ \<Rightarrow> Some best)))"

record image_metadata =
  meta_width :: real
  meta_height :: real

text \<open>
  \<open>detectAndValidateFace\<close>, given the value that \<open>detectionService.detectFaces(buffer)\<close>
  resolved to (the detector's inference is external).
\<close>

definition detectAndValidateFace ::
    "environment \<Rightarrow> face_box list option \<times> image_metadata \<Rightarrow> app_error + bounding_box" where
  "detectAndValidateFace env detected =
     (case detected of (boxes, metadata) \<Rightarrow>
        if boxes = None \<or> map_option length boxes = Some 0
        then Inl (AppError NO_FACE_DETECTED DetectionError 400)
        else (case selectBestFace boxes (meta_width metadata) (meta_height metadata) of
                None \<Rightarrow> Inl (AppError NO_FACE_DETECTED DetectionError 400)
              | Some bestFace \<Rightarrow>
                  processBoundingBox env bestFace (meta_width metadata) (meta_height metadata)))"

section \<open>Anchor generation (src/services/faceDetectionService.js)\<close>

record feature_map =
  fm_size :: nat
  fm_stride :: real
  anchorsPerCell :: nat

record anchor =
  anchor_cx :: real
  anchor_cy :: real
  anchor_w :: real
  anchor_h :: real

definition featureMaps :: "feature_map list" where
  "featureMaps =
     [\<lparr>fm_size = 16, fm_stride = 8, anchorsPerCell = 2\<rparr>,
      \<lparr>fm_size = 8, fm_stride = 16, anchorsPerCell = 6\<rparr>]"

text \<open>The object pushed for grid cell \<open>(x, y)\<close> of feature map \<open>fm\<close>.\<close>

definition make_anchor :: "real \<Rightarrow> feature_map \<Rightarrow> nat \<Rightarrow> nat \<Rightarrow> anchor" where
  "make_anchor tsize fm x y =
     \<lparr>anchor_cx = ((real x + 5 / 10) * fm_stride fm) / tsize,
      anchor_cy = ((real y + 5 / 10) * fm_stride fm) / tsize,
      anchor_w = fm_stride fm / tsize,
      anchor_h = fm_stride fm / tsize\<rparr>"

text \<open>
  The four nested \<open>for\<close> loops; each counts upwards over a fixed range, and the body
  appends to \<open>anchors\<close>.
\<close>

definition compute_anchors :: "real \<Rightarrow> feature_map list \<Rightarrow> anchor list" where
  "compute_anchors tsize fms =
     fold (\<lambda>fm anchors.
       fold (\<lambda>y anchors.
         fold (\<lambda>x anchors.
           fold (\<lambda>a anchors. anchors @ [make_anchor tsize fm x y])
             [0..<anchorsPerCell fm] anchors)
           [0..<fm_size fm] anchors)
         [0..<fm_size fm] anchors)
       fms []"

text \<open>
  The service object keeps the anchors it computed (\<open>this.anchors\<close>, \<open>null\<close> after
  construction); \<open>_generateAnchors\<close> returns the cached list when there is one.
\<close>

record detection_service =
  anchors :: "anchor list option"

definition new_FaceDetectionService :: detection_service where
  "new_FaceDetectionService = \<lparr>anchors = None\<rparr>"

definition generateAnchors :: "detection_service \<Rightarrow> anchor list \<times> detection_service" where
  "generateAnchors svc =
     (case anchors svc of
        Some cached \<Rightarrow> (cached, svc)
      | None \<Rightarrow>
          (let computed = compute_anchors (targetSize config_faceDetection) featureMaps
           in (computed, svc\<lparr>anchors := Some computed\<rparr>)))"

section \<open>Embedding validation (src/utils/validation.js)\<close>

text \<open>
  A JavaScript number: finite, an infinity, or \<open>NaN\<close>. The values \<open>JSON.parse\<close> can
  return are modelled by \<open>json\<close>; the parser itself is a parameter of
  \<open>validateEmbedding\<close>, returning the parsed value or the message of the
  \<open>SyntaxError\<close> it threw.
\<close>

datatype jsnum = Fin real | PosInfinity | NegInfinity | NaN

datatype json =
    JNull
  | JBool bool
  | JNumber jsnum
  | JString string
  | JArray "json list"
  | JObject "(string \<times> json) list"

text \<open>\<open>typeof val === 'number' && !isNaN(val)\<close>\<close>

fun is_valid_number :: "json \<Rightarrow> bool" where
  "is_valid_number (JNumber n) = (n \<noteq> NaN)"
| "is_valid_number _ = False"

definition validateEmbedding ::
    "environment \<Rightarrow> (string \<Rightarrow> string + json) \<Rightarrow> string \<Rightarrow> app_error + json list" where
  "validateEmbedding env JSON_parse embeddingString =
     (case JSON_parse embeddingString of
        Inl msg \<Rightarrow> Inl (AppError (''Invalid embedding format: '' @ msg) ValidationError 400)
      | Inr embedding \<Rightarrow>
          (case embedding of
             JArray xs \<Rightarrow>
               if length xs \<noteq> embeddingDimension (config_faceRecognition env)
               then Inl (AppError INVALID_EMBEDDING_FORMAT ValidationError 400)
               else if \<not> list_all is_valid_number xs
               then Inl (AppError INVALID_EMBEDDING_VALUES ValidationError 400)
               else Inr xs
           | _ \<Rightarrow> Inl (AppError INVALID_EMBEDDING_FORMAT ValidationError 400)))"

section \<open>Pixel layout (src/utils/image.js)\<close>

text \<open>
  A \<open>Float32Array\<close> is a list of \<open>jsnum\<close>. \<open>new Float32Array(n)\<close> is filled with
  zeros; reading past the end yields \<open>undefined\<close>, which a typed array stores as
  \<open>NaN\<close>; a write past the end is ignored, as \<open>list_update\<close> does.
\<close>

definition typed_read :: "jsnum list \<Rightarrow> nat \<Rightarrow> jsnum" where
  "typed_read a i = (if i < length a then a ! i else NaN)"

definition flipHorizontal :: "jsnum list \<Rightarrow> nat \<Rightarrow> nat \<Rightarrow> jsnum list" where
  "flipHorizontal nhwcData height width =
     fold (\<lambda>y flipped.
       fold (\<lambda>x flipped.
         fold (\<lambda>c flipped.
           (let srcIdx = (y * width + x) * 3 + c;
                dstIdx = (y * width + (width - 1 - x)) * 3 + c
            in flipped[dstIdx := typed_read nhwcData srcIdx]))
           [0..<3] flipped)
         [0..<width] flipped)
       [0..<height] (replicate (height * width * 3) (Fin 0))"

text \<open>
  \<open>convertNHWCtoNCHW\<close>: \<open>index++\<close> is threaded through the loops together with the
  output array.
\<close>

definition convertNHWCtoNCHW :: "jsnum list \<Rightarrow> nat \<Rightarrow> nat \<Rightarrow> nat list \<Rightarrow> jsnum list" where
  "convertNHWCtoNCHW nhwcData height width channelOrder =
     fst (fold (\<lambda>channel st.
       fold (\<lambda>y st.
         fold (\<lambda>x st.
           (case st of (nchwData, index) \<Rightarrow>
              (nchwData[index := typed_read nhwcData ((y * width + x) * 3 + channel)],
               Suc index)))
           [0..<width] st)
         [0..<height] st)
       channelOrder (replicate (3 * height * width) (Fin 0), 0))"

section \<open>Rounded arithmetic\<close>

text \<open>
  The vector utilities accumulate sums of products and take square roots, so their
  results depend on how each operation is rounded and on what becomes of an overflow.
  They compute on \<open>jsnum\<close> and take the rounding as a parameter: every \<open>+\<close>, \<open>*\<close>,
  \<open>/\<close> and \<open>Math.sqrt\<close> of the source, applied to finite numbers, returns the
  rounding of the exact result, which may be an infinity; applied to an infinity or to
  \<open>NaN\<close> it follows IEEE 754. \<open>exact\<close> is arithmetic without rounding error.
  \<open>binary64\<close> is IEEE 754 double precision, round to nearest, ties to even, with
  normal and subnormal numbers and overflow to an infinity. \<open>Math.sqrt\<close> is taken as
  the correctly rounded square root, which is what the hardware instruction behind it
  computes.

  The sign of a zero is not represented: \<open>-0\<close> is \<open>Fin 0\<close> (\<open>-0 === 0\<close> holds and both
  are falsy). A division by zero is the division by \<open>+0\<close>.
\<close>

type_synonym rounding = "real \<Rightarrow> jsnum"

definition exact :: rounding where
  "exact x = Fin x"

definition round_ties_even :: "real \<Rightarrow> int" where
  "round_ties_even x =
     (let f = \<lfloor>x\<rfloor>; d = x - of_int f
      in if d < 1 / 2 then f
         else if 1 / 2 < d then f + 1
         else if even f then f else f + 1)"

text \<open>
  A nonzero \<open>x\<close> with \<open>2^e \<le> |x| < 2^(e+1)\<close> is rounded to a multiple of
  \<open>2^(max e (-1022) - 52)\<close>: 53 significant bits, and the fixed spacing \<open>2^(-1074)\<close>
  of the subnormal range. When the rounded magnitude reaches \<open>2^1024\<close>, which is
  above the largest finite number \<open>2^1024 - 2^971\<close>, the result is the infinity of the
  sign of \<open>x\<close>.
\<close>

definition binary64 :: rounding where
  "binary64 x =
     (if x = 0 then Fin 0
      else (let q = max \<lfloor>log 2 \<bar>x\<bar>\<rfloor> (- 1022) - 52;
                r = of_int (round_ties_even (x / 2 powi q)) * 2 powi q
            in if 2 ^ 1024 \<le> \<bar>r\<bar> then (if 0 < x then PosInfinity else NegInfinity)
               else Fin r))"

text \<open>The sign of a number that is not \<open>NaN\<close>.\<close>

fun negative :: "jsnum \<Rightarrow> bool" where
  "negative (Fin x) = (x < 0)"
| "negative NegInfinity = True"
| "negative _ = False"

text \<open>
  \<open>a + b\<close>: two infinities of opposite sign give \<open>NaN\<close>, otherwise an infinity wins.
\<close>

fun js_add :: "rounding \<Rightarrow> jsnum \<Rightarrow> jsnum \<Rightarrow> jsnum" where
  "js_add rnd (Fin x) (Fin y) = rnd (x + y)"
| "js_add rnd NaN b = NaN"
| "js_add rnd a NaN = NaN"
| "js_add rnd PosInfinity NegInfinity = NaN"
| "js_add rnd NegInfinity PosInfinity = NaN"
| "js_add rnd PosInfinity b = PosInfinity"
| "js_add rnd a PosInfinity = PosInfinity"
| "js_add rnd NegInfinity b = NegInfinity"
| "js_add rnd a NegInfinity = NegInfinity"

text \<open>
  \<open>a * b\<close>: an infinity times zero is \<open>NaN\<close>, otherwise an infinity with the product
  of the signs.
\<close>

fun js_mul :: "rounding \<Rightarrow> jsnum \<Rightarrow> jsnum \<Rightarrow> jsnum" where
  "js_mul rnd (Fin x) (Fin y) = rnd (x * y)"
| "js_mul rnd NaN b = NaN"
| "js_mul rnd a NaN = NaN"
| "js_mul rnd a b =
     (if a = Fin 0 \<or> b = Fin 0 then NaN
      else if negative a = negative b then PosInfinity else NegInfinity)"

text \<open>
  \<open>a / b\<close>: \<open>0 / 0\<close> and an infinity over an infinity are \<open>NaN\<close>; a nonzero finite
  number over zero and an infinity over a finite number are infinities; a finite number
  over an infinity is zero.
\<close>

fun js_div :: "rounding \<Rightarrow> jsnum \<Rightarrow> jsnum \<Rightarrow> jsnum" where
  "js_div rnd (Fin x) (Fin y) =
     (if y = 0 then (if x = 0 then NaN else if 0 < x then PosInfinity else NegInfinity)
      else rnd (x / y))"
| "js_div rnd NaN b = NaN"
| "js_div rnd a NaN = NaN"
| "js_div rnd (Fin x) b = Fin 0"
| "js_div rnd a (Fin y) = (if negative a = (y < 0) then PosInfinity else NegInfinity)"
| "js_div rnd a b = NaN"

text \<open>\<open>Math.sqrt\<close>: \<open>NaN\<close> below zero.\<close>

fun js_sqrt :: "rounding \<Rightarrow> jsnum \<Rightarrow> jsnum" where
  "js_sqrt rnd (Fin x) = (if x < 0 then NaN else rnd (sqrt x))"
| "js_sqrt rnd PosInfinity = PosInfinity"
| "js_sqrt rnd a = NaN"

text \<open>The numbers that \<open>||\<close> and \<open>!\<close> take for false: zero and \<open>NaN\<close>.\<close>

definition falsy :: "jsnum \<Rightarrow> bool" where
  "falsy a = (a = Fin 0 \<or> a = NaN)"

section \<open>Similarity and normalization (src/utils/math.js)\<close>

text \<open>One iteration of the loop of \<open>cosineSimilarity\<close> on (dotProduct, normA, normB).\<close>

definition cosine_step ::
    "rounding \<Rightarrow> jsnum list \<Rightarrow> jsnum list \<Rightarrow> nat \<Rightarrow> jsnum \<times> jsnum \<times> jsnum
      \<Rightarrow> jsnum \<times> jsnum \<times> jsnum" where
  "cosine_step rnd vectorA vectorB i acc =
     (case acc of (dotProduct, normA, normB) \<Rightarrow>
        (js_add rnd dotProduct (js_mul rnd (vectorA ! i) (vectorB ! i)),
         js_add rnd normA (js_mul rnd (vectorA ! i) (vectorA ! i)),
         js_add rnd normB (js_mul rnd (vectorB ! i) (vectorB ! i))))"

text \<open>
  A vector argument may be \<open>null\<close> or \<open>undefined\<close> (\<open>None\<close>); an empty array is an
  object and passes the test \<open>!vectorA\<close>. The result \<open>None\<close> is \<open>null\<close>. After the
  length test both vectors have the same length, so every \<open>vectorB[i]\<close> is in range.
  \<open>normA === 0\<close> holds for a zero only, not for \<open>NaN\<close>.
\<close>

definition cosineSimilarity ::
    "rounding \<Rightarrow> jsnum list option \<Rightarrow> jsnum list option \<Rightarrow> jsnum option" where
  "cosineSimilarity rnd vectorA vectorB =
     (case vectorA of
        None \<Rightarrow> None
      | Some a \<Rightarrow>
          (case vectorB of
             None \<Rightarrow> None
           | Some b \<Rightarrow>
               if length a \<noteq> length b then None
               else (case fold (cosine_step rnd a b) [0..<length a] (Fin 0, Fin 0, Fin 0) of
                       (dotProduct, normA, normB) \<Rightarrow>
                         if normA = Fin 0 \<or> normB = Fin 0 then Some (Fin 0)
                         else Some (js_div rnd dotProduct
                                (js_mul rnd (js_sqrt rnd normA) (js_sqrt rnd normB))))))"

text \<open>The value of \<open>dotProduct\<close> after the loop, on its own.\<close>

definition dot_product :: "rounding \<Rightarrow> jsnum list \<Rightarrow> jsnum list \<Rightarrow> jsnum" where
  "dot_product rnd vectorA vectorB =
     fold (\<lambda>i acc. js_add rnd acc (js_mul rnd (vectorA ! i) (vectorB ! i)))
       [0..<length vectorA] (Fin 0)"

text \<open>The loop \<open>for (const val of vector) norm += val * val\<close>, started at zero.\<close>

definition sum_of_squares :: "rounding \<Rightarrow> jsnum list \<Rightarrow> jsnum" where
  "sum_of_squares rnd vector =
     fold (\<lambda>val norm. js_add rnd norm (js_mul rnd val val)) vector (Fin 0)"

text \<open>\<open>Math.sqrt(norm) || 1.0\<close> replaces a zero norm, and a \<open>NaN\<close>, by one.\<close>

definition l2Normalize :: "rounding \<Rightarrow> jsnum list \<Rightarrow> jsnum list" where
  "l2Normalize rnd vector =
     (let root = js_sqrt rnd (sum_of_squares rnd vector);
          norm = (if falsy root then Fin 1 else root)
      in map (\<lambda>v. js_div rnd v norm) vector)"

section \<open>Embedding post-processing (src/services/faceRecognitionService.js)\<close>

text \<open>
  The averaging loop of \<open>generateEmbedding\<close>:
  \<open>for (i = 0; i < embedding.length && i < flippedEmbedding.length; i++)\<close>
  with the body \<open>embedding[i] = 0.5 * (embedding[i] + flippedEmbedding[i])\<close>.
\<close>

definition average_embeddings :: "rounding \<Rightarrow> jsnum list \<Rightarrow> jsnum list \<Rightarrow> jsnum list" where
  "average_embeddings rnd embedding flippedEmbedding =
     fold (\<lambda>i e. e[i := js_mul rnd (Fin (5 / 10)) (js_add rnd (e ! i) (flippedEmbedding ! i))])
       [0..<min (length embedding) (length flippedEmbedding)] embedding"

record preprocessed =
  nchw :: "jsnum list"
  nhwc :: "jsnum list option"
  size :: nat

text \<open>
  The vector handed to \<open>l2Normalize\<close>: the recognizer's output for the planar tensor,
  averaged with its output for the mirrored tensor when test-time augmentation is on.
  The recognizer (\<open>_runInference\<close>) is external and is a parameter; it returns the
  numbers of the output tensor.
\<close>

definition raw_embedding ::
    "rounding \<Rightarrow> environment \<Rightarrow> (jsnum list \<Rightarrow> jsnum list) \<Rightarrow> preprocessed \<Rightarrow> jsnum list" where
  "raw_embedding rnd env runInference preprocessedData =
     (let embedding = runInference (nchw preprocessedData)
      in case nhwc preprocessedData of
           None \<Rightarrow> embedding
         | Some pixels \<Rightarrow>
             if ARC_TTA_FLIP env
             then (let flipped = flipHorizontal pixels (size preprocessedData) (size preprocessedData);
                       channelOrder =
                         (if ARC_CHANNEL_ORDER env = ''BGR'' then [2, 1, 0] else [0, 1, 2]);
                       flippedNCHW =
                         convertNHWCtoNCHW flipped (size preprocessedData) (size preprocessedData)
                           channelOrder;
                       flippedEmbedding = runInference flippedNCHW
                   in average_embeddings rnd embedding flippedEmbedding)
             else embedding)"

definition generateEmbedding ::
    "rounding \<Rightarrow> environment \<Rightarrow> (jsnum list \<Rightarrow> jsnum list) \<Rightarrow> preprocessed \<Rightarrow> jsnum list" where
  "generateEmbedding rnd env runInference preprocessedData =
     l2Normalize rnd (raw_embedding rnd env runInference preprocessedData)"

section \<open>Stand-ins for the external collaborators\<close>

text \<open>
  \<open>JSON.parse\<close> and the recognizer are parameters of the functions above. The examples
  below use a parser that returns a given result for the text at hand, and a
  recognizer that answers \<open>e0\<close> for the tensor \<open>tensor0\<close> and \<open>e1\<close> for any other.
\<close>

definition parse_result :: "string + json \<Rightarrow> string \<Rightarrow> string + json" where
  "parse_result r text = r"

definition recognizer_answers ::
    "jsnum list \<Rightarrow> jsnum list \<Rightarrow> jsnum list \<Rightarrow> jsnum list \<Rightarrow> jsnum list" where
  "recognizer_answers tensor0 e0 e1 tensor = (if tensor = tensor0 then e0 else e1)"

section \<open>Notions used in the proofs\<close>

text \<open>
  The order of the specification for one feature map: grid rows, then columns, then
  the anchor slots of a cell, every slot of a cell holding the same anchor.
\<close>

definition grid_anchors :: "real \<Rightarrow> feature_map \<Rightarrow> anchor list" where
  "grid_anchors tsize fm =
     concat (map (\<lambda>y.
       concat (map (\<lambda>x. replicate (anchorsPerCell fm) (make_anchor tsize fm x y))
         [0..<fm_size fm]))
       [0..<fm_size fm])"

text \<open>The positions \<open>(y, x, c)\<close> in the order in which the three nested loops visit them.\<close>

definition flip_positions :: "nat \<Rightarrow> nat \<Rightarrow> (nat \<times> nat \<times> nat) list" where
  "flip_positions height width =
     concat (map (\<lambda>y. concat (map (\<lambda>x. map (\<lambda>c. (y, x, c)) [0..<3]) [0..<width])) [0..<height])"

text \<open>\<open>dstIdx\<close> and \<open>srcIdx\<close> at a position.\<close>

definition flip_dst :: "nat \<Rightarrow> nat \<times> nat \<times> nat \<Rightarrow> nat" where
  "flip_dst width p = (case p of (y, x, c) \<Rightarrow> (y * width + (width - 1 - x)) * 3 + c)"

definition flip_src :: "nat \<Rightarrow> nat \<times> nat \<times> nat \<Rightarrow> nat" where
  "flip_src width p = (case p of (y, x, c) \<Rightarrow> (y * width + x) * 3 + c)"

text \<open>The index of the pixel component mirrored to position \<open>j\<close>.\<close>

definition mirror_index :: "nat \<Rightarrow> nat \<Rightarrow> nat" where
  "mirror_index width j =
     ((j div 3 div width) * width + (width - 1 - j div 3 mod width)) * 3 + j mod 3"

text \<open>The Euclidean norm of the specification: \<open>sqrt(\<Sum>v\<^sup>2)\<close>.\<close>

definition l2_norm :: "real list \<Rightarrow> real" where
  "l2_norm v = sqrt (\<Sum>x\<leftarrow>v. x * x)"

text \<open>The value of a finite number.\<close>

fun fin_val :: "jsnum \<Rightarrow> real" where
  "fin_val (Fin x) = x"
| "fin_val _ = 0"

text \<open>
  The constants of the error analysis of binary64: the relative error \<open>2^(-53)\<close> of a
  rounding in the normal range, the absolute error \<open>2^(-1075)\<close> of a rounding in the
  subnormal range, and a magnitude \<open>2^1023\<close> below which no rounding overflows.
\<close>

definition unit_roundoff :: real where
  "unit_roundoff = 1 / 2 ^ 53"

definition tiny :: real where
  "tiny = 1 / 2 ^ 1075"

definition huge :: real where
  "huge = 2 ^ 1023"

text \<open>
  The range in which the analysis keeps the sum of the squares of a vector, and the
  corresponding range of its square root.
\<close>

definition least_sum :: real where
  "least_sum = 1 / 2 ^ 1000"

definition most_sum :: real where
  "most_sum = 2 ^ 1010"

definition least_root :: real where
  "least_root = 1 / 2 ^ 501"

definition most_root :: real where
  "most_root = 2 ^ 506"

section \<open>Properties of non-maximum suppression\<close>

lemma calculateIOU_commute: "calculateIOU a b = calculateIOU b a"
  by (simp add: calculateIOU_def Let_def max.commute min.commute add.commute)

text \<open>The backwards loop with \<open>splice\<close> keeps exactly the boxes that do not overlap too much.\<close>

lemma remove_overlapping_prefix:
  "n \<le> length srt \<Longrightarrow>
   remove_overlapping threshold current srt n =
     filter (\<lambda>b. \<not> calculateIOU current b > threshold) (take n srt) @ drop n srt"
proof (induction n arbitrary: srt)
  case 0
  show ?case by simp
next
  case (Suc n)
  then have n: "n < length srt" by simp
  show ?case
  proof (cases "calculateIOU current (srt ! n) > threshold")
    case True
    have "n \<le> length (splice1 n srt)" using n by (simp add: splice1_def)
    from Suc.IH [OF this] True n show ?thesis
      by (simp add: splice1_def take_Suc_conv_app_nth)
  next
    case False
    from Suc.IH [of srt] False n show ?thesis
      by (simp add: take_Suc_conv_app_nth Cons_nth_drop_Suc)
  qed
qed

lemma remove_overlapping_filter:
  "remove_overlapping threshold current srt (length srt) =
     filter (\<lambda>b. \<not> calculateIOU current b > threshold) srt"
  by (simp add: remove_overlapping_prefix)

text \<open>
  Loop invariant: the kept boxes are pairwise within the threshold, and so is every
  kept box with every box still in the queue.
\<close>

lemma nms_loop_pairwise:
  "sorted_wrt (\<lambda>a b. calculateIOU a b \<le> threshold) kept \<Longrightarrow>
   (\<forall>k \<in> set kept. \<forall>r \<in> set srt. calculateIOU k r \<le> threshold) \<Longrightarrow>
   sorted_wrt (\<lambda>a b. calculateIOU a b \<le> threshold) (nms_loop threshold kept srt)"
proof (induction threshold kept srt rule: nms_loop.induct)
  case (1 threshold kept)
  then show ?case by simp
next
  case (2 threshold kept current rest)
  show ?case
    unfolding nms_loop.simps
  proof (rule "2.IH")
    show "sorted_wrt (\<lambda>a b. calculateIOU a b \<le> threshold) (kept @ [current])"
      using "2.prems" by (simp add: sorted_wrt_append)
    show "\<forall>k\<in>set (kept @ [current]).
       \<forall>r\<in>set (remove_overlapping threshold current rest (length rest)).
          calculateIOU k r \<le> threshold"
      using "2.prems" by (auto simp: remove_overlapping_filter)
  qed
qed

lemma applyNMS_example:
  "applyNMS
     [\<lparr>box_x = 0, box_y = 0, box_width = 1 / 2, box_height = 1 / 2, score = 9 / 10\<rparr>,
      \<lparr>box_x = 0, box_y = 0, box_width = 1 / 2, box_height = 3 / 8, score = 3 / 4\<rparr>,
      \<lparr>box_x = 1 / 2, box_y = 1 / 2, box_width = 1 / 2, box_height = 1 / 2, score = 1\<rparr>]
     None =
     [\<lparr>box_x = 1 / 2, box_y = 1 / 2, box_width = 1 / 2, box_height = 1 / 2, score = 1\<rparr>,
      \<lparr>box_x = 0, box_y = 0, box_width = 1 / 2, box_height = 1 / 2, score = 9 / 10\<rparr>]"
  by (simp add: applyNMS_def threshold_used_def config_faceDetection_def sort_by_score_desc_def
      calculateIOU_def Let_def splice1_def)

text \<open>
  Claim C1. For every list of detection candidates and every threshold (passed, or the
  configured default), any two boxes at distinct positions of the list returned by
  \<open>_applyNMS\<close> have an IoU, as computed by \<open>calculateIOU\<close>, of at most the threshold
  used.
\<close>

theorem applyNMS_pairwise_iou:
  assumes "i < length (applyNMS boxes threshold)"
    and "j < length (applyNMS boxes threshold)"
    and "i \<noteq> j"
  shows "calculateIOU (applyNMS boxes threshold ! i) (applyNMS boxes threshold ! j)
    \<le> threshold_used threshold"
proof -
  let ?K = "applyNMS boxes threshold"
  let ?t = "threshold_used threshold"
  have sw: "sorted_wrt (\<lambda>a b. calculateIOU a b \<le> ?t) ?K"
    unfolding applyNMS_def by (rule nms_loop_pairwise) simp_all
  show ?thesis
  proof (cases "i < j")
    case True
    with sw assms show ?thesis by (simp add: sorted_wrt_iff_nth_less)
  next
    case False
    with assms have "j < i" by simp
    with sw assms have "calculateIOU (?K ! j) (?K ! i) \<le> ?t"
      by (simp add: sorted_wrt_iff_nth_less)
    then show ?thesis by (subst calculateIOU_commute)
  qed
qed

text \<open>
  Three candidates at the default threshold 1/2: the second overlaps the first with
  IoU 3/4 and is suppressed; the two kept boxes are disjoint.
\<close>

theorem applyNMS_pairwise_iou_witness:
  "calculateIOU
     (applyNMS
        [\<lparr>box_x = 0, box_y = 0, box_width = 1 / 2, box_height = 1 / 2, score = 9 / 10\<rparr>,
         \<lparr>box_x = 0, box_y = 0, box_width = 1 / 2, box_height = 3 / 8, score = 3 / 4\<rparr>,
         \<lparr>box_x = 1 / 2, box_y = 1 / 2, box_width = 1 / 2, box_height = 1 / 2, score = 1\<rparr>]
        None ! 0)
     (applyNMS
        [\<lparr>box_x = 0, box_y = 0, box_width = 1 / 2, box_height = 1 / 2, score = 9 / 10\<rparr>,
         \<lparr>box_x = 0, box_y = 0, box_width = 1 / 2, box_height = 3 / 8, score = 3 / 4\<rparr>,
         \<lparr>box_x = 1 / 2, box_y = 1 / 2, box_width = 1 / 2, box_height = 1 / 2, score = 1\<rparr>]
        None ! 1) \<le> threshold_used None
   \<and> length
     (applyNMS
        [\<lparr>box_x = 0, box_y = 0, box_width = 1 / 2, box_height = 1 / 2, score = 9 / 10\<rparr>,
         \<lparr>box_x = 0, box_y = 0, box_width = 1 / 2, box_height = 3 / 8, score = 3 / 4\<rparr>,
         \<lparr>box_x = 1 / 2, box_y = 1 / 2, box_width = 1 / 2, box_height = 1 / 2, score = 1\<rparr>]
        None) = 2
   \<and> threshold_used None = 1 / 2"
proof -
  let ?bs = "[\<lparr>box_x = 0, box_y = 0, box_width = 1 / 2, box_height = 1 / 2, score = 9 / 10\<rparr>,
         \<lparr>box_x = 0, box_y = 0, box_width = 1 / 2, box_height = 3 / 8, score = 3 / 4\<rparr>,
         \<lparr>box_x = 1 / 2, box_y = 1 / 2, box_width = 1 / 2, box_height = 1 / 2, score = 1\<rparr>]"
  have len: "length (applyNMS ?bs None) = 2"
    by (simp only: applyNMS_example) simp
  have th: "threshold_used None = 1 / 2"
    by (simp add: threshold_used_def config_faceDetection_def)
  have "calculateIOU (applyNMS ?bs None ! 0) (applyNMS ?bs None ! 1) \<le> threshold_used None"
    by (rule applyNMS_pairwise_iou) (simp_all add: len)
  with len th show ?thesis by blast
qed

section \<open>Properties of the bounding-box geometry\<close>

lemma Math_round_nonneg: "0 \<le> v \<Longrightarrow> 0 \<le> Math_round v"
  by (simp add: Math_round_def)

text \<open>
  When the expanded left and top edges stay inside the image, that is when
  \<open>expandX \<le> box.x\<close> and \<open>expandY \<le> box.y\<close>, the expanded box of a box inside the
  image is again a box inside the image.
\<close>

lemma expandBoundingBox_when_not_clipped:
  assumes inside: "0 \<le> box_x box" "0 \<le> box_y box" "0 < box_width box" "0 < box_height box"
      "box_x box + box_width box \<le> imageWidth" "box_y box + box_height box \<le> imageHeight"
    and ratio: "0 \<le> expandRatio"
    and left: "Math_round (box_width box * expandRatio / 2) \<le> box_x box"
    and top: "Math_round (box_height box * expandRatio / 2) \<le> box_y box"
  shows "0 < box_width (expandBoundingBox box imageWidth imageHeight expandRatio)
    \<and> 0 < box_height (expandBoundingBox box imageWidth imageHeight expandRatio)
    \<and> 0 \<le> box_x (expandBoundingBox box imageWidth imageHeight expandRatio)
    \<and> 0 \<le> box_y (expandBoundingBox box imageWidth imageHeight expandRatio)
    \<and> box_x (expandBoundingBox box imageWidth imageHeight expandRatio)
        + box_width (expandBoundingBox box imageWidth imageHeight expandRatio) \<le> imageWidth
    \<and> box_y (expandBoundingBox box imageWidth imageHeight expandRatio)
        + box_height (expandBoundingBox box imageWidth imageHeight expandRatio) \<le> imageHeight"
proof -
  have ex: "0 \<le> Math_round (box_width box * expandRatio / 2)"
    using inside(3) ratio by (intro Math_round_nonneg) simp
  have ey: "0 \<le> Math_round (box_height box * expandRatio / 2)"
    using inside(4) ratio by (intro Math_round_nonneg) simp
  show ?thesis
    using inside left top ex ey
    by (simp add: expandBoundingBox_def Let_def clamp_def min_def max_def)
qed

text \<open>
  Claim C2. For a box inside the image and a ratio \<open>\<ge> 0\<close>, the box returned by
  \<open>expandBoundingBox\<close> should again lie inside the image. The returned \<open>x\<close> is clamped,
  but the returned \<open>width\<close> is computed from the unclamped left edge
  \<open>box.x - expandX\<close>: when that edge is negative the result can reach past the image.
  In a 100 by 100 image, the box (3, 3, 94, 94) with the default ratio 0.1 has
  \<open>expandX = Math.round(4.7) = 5\<close> and is returned as (0, 0, 102, 102).
\<close>

theorem expandBoundingBox_exceeds_image:
  "expandBoundingBox \<lparr>box_x = 3, box_y = 3, box_width = 94, box_height = 94\<rparr> 100 100 (1 / 10)
     = \<lparr>box_x = 0, box_y = 0, box_width = 102, box_height = 102\<rparr>"
  by (simp add: expandBoundingBox_def Math_round_def clamp_def)

text \<open>
  The size test of \<open>processBoundingBox\<close> compares with \<open>cfg.minPixelSize\<close>, which is
  \<open>undefined\<close>: the function returns a box for every input.
\<close>

lemma processBoundingBox_never_fails:
  "\<exists>processedBox. processBoundingBox env box imageWidth imageHeight = Inr processedBox"
  by (simp add: processBoundingBox_def Let_def js_less_def faceRecognition_minPixelSize_def)

text \<open>
  Claim C9. \<open>processBoundingBox\<close> should fail with the "face too small" error when the
  processed box is narrower or lower than \<open>minPixelSize\<close> (20). The function reads
  \<open>minPixelSize\<close> from \<open>config.faceRecognition\<close>, which does not have it, and each
  comparison with \<open>undefined\<close> is false: with the default configuration (expand ratio
  0.1, square crop) a 5 by 5 face is returned as it is.
\<close>

theorem processBoundingBox_accepts_tiny_face:
  "processBoundingBox default_environment
     \<lparr>box_x = 100, box_y = 100, box_width = 5, box_height = 5\<rparr> 1000 1000
     = Inr \<lparr>box_x = 100, box_y = 100, box_width = 5, box_height = 5\<rparr>"
  by (simp add: processBoundingBox_def default_environment_def config_faceRecognition_def
      expandBoundingBox_def makeSquareBoundingBox_def Math_round_def clamp_def Let_def
      js_less_def faceRecognition_minPixelSize_def)

section \<open>Properties of face selection\<close>

text \<open>The size filter: no side may be shorter than \<open>max(minPixelSize, 0.08 * min(imgW, imgH))\<close>.\<close>

lemma min_size_filter:
  "box_width p < max 20 (min imageWidth imageHeight * (8 / 100))
     \<or> box_height p < max 20 (min imageWidth imageHeight * (8 / 100)) \<Longrightarrow>
   \<not> passes_filters imageWidth imageHeight p"
  by (simp add: passes_filters_def Let_def config_faceDetection_def)

lemma to_pixel_box_example:
  "to_pixel_box 1000 1000
     \<lparr>box_x = 1 / 2, box_y = 1 / 2, box_width = 1 / 100, box_height = 1 / 100,
      score_opt = Some (9 / 10)\<rparr>
   = \<lparr>box_x = 500, box_y = 500, box_width = 10, box_height = 10, face_score = 9 / 10\<rparr>"
  by (simp add: to_pixel_box_def Math_round_def Let_def)

text \<open>
  Claim C8. When every candidate, converted to pixels, fails the selector's filters,
  \<open>selectBestFace\<close> returns \<open>null\<close> and \<open>detectAndValidateFace\<close> fails with the
  \<open>NO_FACE_DETECTED\<close> detection error (status 400).
\<close>

theorem no_candidate_survives_no_face:
  assumes "\<forall>b \<in> set bs. \<not> passes_filters imageWidth imageHeight (to_pixel_box imageWidth imageHeight b)"
  shows "selectBestFace (Some bs) imageWidth imageHeight = None
    \<and> detectAndValidateFace env (Some bs, \<lparr>meta_width = imageWidth, meta_height = imageHeight\<rparr>)
        = Inl (AppError NO_FACE_DETECTED DetectionError 400)"
proof -
  have "filter (passes_filters imageWidth imageHeight) (map (to_pixel_box imageWidth imageHeight) bs) = []"
    using assms by (simp add: filter_empty_conv)
  then have sel: "selectBestFace (Some bs) imageWidth imageHeight = None"
    by (simp add: selectBestFace_def)
  then show ?thesis
    by (simp add: detectAndValidateFace_def)
qed

text \<open>
  The single candidate of 10 by 10 pixels in a 1000 by 1000 image: the minimum side is
  \<open>max(20, 80) = 80\<close>, the candidate is filtered out, and the caller gets
  \<open>NO_FACE_DETECTED\<close>.
\<close>

theorem no_candidate_survives_no_face_witness:
  "to_pixel_box 1000 1000
     \<lparr>box_x = 1 / 2, box_y = 1 / 2, box_width = 1 / 100, box_height = 1 / 100,
      score_opt = Some (9 / 10)\<rparr>
     = \<lparr>box_x = 500, box_y = 500, box_width = 10, box_height = 10, face_score = 9 / 10\<rparr>
   \<and> \<not> passes_filters 1000 1000
     \<lparr>box_x = 500, box_y = 500, box_width = 10, box_height = 10, face_score = 9 / 10\<rparr>
   \<and> selectBestFace
       (Some [\<lparr>box_x = 1 / 2, box_y = 1 / 2, box_width = 1 / 100, box_height = 1 / 100,
               score_opt = Some (9 / 10)\<rparr>]) 1000 1000 = None
   \<and> detectAndValidateFace default_environment
       (Some [\<lparr>box_x = 1 / 2, box_y = 1 / 2, box_width = 1 / 100, box_height = 1 / 100,
               score_opt = Some (9 / 10)\<rparr>], \<lparr>meta_width = 1000, meta_height = 1000\<rparr>)
       = Inl (AppError NO_FACE_DETECTED DetectionError 400)"
proof -
  let ?b = "\<lparr>box_x = 1 / 2, box_y = 1 / 2, box_width = 1 / 100, box_height = 1 / 100,
      score_opt = Some (9 / 10)\<rparr> :: face_box"
  let ?p = "\<lparr>box_x = 500, box_y = 500, box_width = 10, box_height = 10, face_score = 9 / 10\<rparr> :: pixel_face"
  have small: "\<not> passes_filters 1000 1000 ?p"
    by (rule min_size_filter) simp
  have "\<forall>b \<in> set [?b]. \<not> passes_filters 1000 1000 (to_pixel_box 1000 1000 b)"
    using small by (simp add: to_pixel_box_example)
  from no_candidate_survives_no_face [OF this, of default_environment] small to_pixel_box_example
  show ?thesis by blast
qed

section \<open>Properties of embedding validation\<close>

lemma is_valid_number_iff: "is_valid_number v \<longleftrightarrow> (\<exists>n. v = JNumber n \<and> n \<noteq> NaN)"
  by (cases v) auto

text \<open>
  Claim C7, as the code has it. \<open>validateEmbedding\<close> returns the parsed array, unchanged,
  exactly when the text parses to an array of exactly 512 elements that are all numbers
  other than \<open>NaN\<close>. An array of another length, or a parsed value that is not an array,
  is rejected with \<open>INVALID_EMBEDDING_FORMAT\<close>; an array of 512 elements with an element
  that is not a number, or is \<open>NaN\<close>, is rejected with \<open>INVALID_EMBEDDING_VALUES\<close>; text
  that does not parse is rejected with "Invalid embedding format: " followed by the
  parser's message. Every rejection is a validation error with status 400.
\<close>

theorem validateEmbedding_cases:
  "((validateEmbedding env JSON_parse s = Inr ys) \<longleftrightarrow>
      (JSON_parse s = Inr (JArray ys) \<and> length ys = 512
        \<and> (\<forall>v \<in> set ys. \<exists>n. v = JNumber n \<and> n \<noteq> NaN)))
   \<and> (JSON_parse s = Inr (JArray xs) \<and> length xs \<noteq> 512 \<longrightarrow>
        validateEmbedding env JSON_parse s
          = Inl (AppError INVALID_EMBEDDING_FORMAT ValidationError 400))
   \<and> (JSON_parse s = Inr (JArray xs) \<and> length xs = 512
        \<and> (\<exists>v \<in> set xs. \<forall>n. v = JNumber n \<longrightarrow> n = NaN) \<longrightarrow>
        validateEmbedding env JSON_parse s
          = Inl (AppError INVALID_EMBEDDING_VALUES ValidationError 400))
   \<and> (JSON_parse s = Inr j \<and> (\<forall>zs. j \<noteq> JArray zs) \<longrightarrow>
        validateEmbedding env JSON_parse s
          = Inl (AppError INVALID_EMBEDDING_FORMAT ValidationError 400))
   \<and> (JSON_parse s = Inl msg \<longrightarrow>
        validateEmbedding env JSON_parse s
          = Inl (AppError (''Invalid embedding format: '' @ msg) ValidationError 400))"
proof (intro conjI impI)
  show "(validateEmbedding env JSON_parse s = Inr ys) \<longleftrightarrow>
      (JSON_parse s = Inr (JArray ys) \<and> length ys = 512
        \<and> (\<forall>v \<in> set ys. \<exists>n. v = JNumber n \<and> n \<noteq> NaN))"
    by (auto simp: validateEmbedding_def config_faceRecognition_def list_all_iff
        is_valid_number_iff split: sum.splits json.splits if_splits)
next
  assume "JSON_parse s = Inr (JArray xs) \<and> length xs \<noteq> 512"
  then show "validateEmbedding env JSON_parse s
      = Inl (AppError INVALID_EMBEDDING_FORMAT ValidationError 400)"
    by (simp add: validateEmbedding_def config_faceRecognition_def)
next
  assume "JSON_parse s = Inr (JArray xs) \<and> length xs = 512
        \<and> (\<exists>v \<in> set xs. \<forall>n. v = JNumber n \<longrightarrow> n = NaN)"
  then show "validateEmbedding env JSON_parse s
      = Inl (AppError INVALID_EMBEDDING_VALUES ValidationError 400)"
    by (auto simp: validateEmbedding_def config_faceRecognition_def list_all_iff
        is_valid_number_iff)
next
  assume "JSON_parse s = Inr j \<and> (\<forall>zs. j \<noteq> JArray zs)"
  then show "validateEmbedding env JSON_parse s
      = Inl (AppError INVALID_EMBEDDING_FORMAT ValidationError 400)"
    by (cases j) (simp_all add: validateEmbedding_def)
next
  assume "JSON_parse s = Inl msg"
  then show "validateEmbedding env JSON_parse s
      = Inl (AppError (''Invalid embedding format: '' @ msg) ValidationError 400)"
    by (simp add: validateEmbedding_def)
qed

lemma list_all_replicate: "list_all P (replicate n x) \<longleftrightarrow> n = 0 \<or> P x"
  by (induction n) auto

text \<open>
  Against claim C7 as stated: the guard is \<open>!isNaN(val)\<close>, so an array whose first
  element is \<open>Infinity\<close> (what \<open>JSON.parse\<close> returns for the literal \<open>1e999\<close>) is
  accepted although it is not an array of finite numbers; and an array containing
  \<open>NaN\<close> is rejected with \<open>INVALID_EMBEDDING_VALUES\<close>, not \<open>INVALID_EMBEDDING_FORMAT\<close>.
\<close>

theorem validateEmbedding_counterexample:
  "validateEmbedding default_environment
     (parse_result (Inr (JArray (JNumber PosInfinity # replicate 511 (JNumber (Fin 0))))))
     ''[1e999, 0, 0]''
     = Inr (JNumber PosInfinity # replicate 511 (JNumber (Fin 0)))
   \<and> validateEmbedding default_environment
     (parse_result (Inr (JArray (JNumber NaN # replicate 511 (JNumber (Fin 0))))))
     ''[0, 0, 0]''
     = Inl (AppError INVALID_EMBEDDING_VALUES ValidationError 400)
   \<and> INVALID_EMBEDDING_VALUES \<noteq> INVALID_EMBEDDING_FORMAT"
  by (simp add: validateEmbedding_def parse_result_def config_faceRecognition_def
      list_all_replicate INVALID_EMBEDDING_VALUES_def INVALID_EMBEDDING_FORMAT_def)

text \<open>
  One input for each case: 512 numbers, 511 numbers, 512 \<open>null\<close>s, a string, and text
  that does not parse. (The texts are abbreviated; the parser's result is what counts.)
\<close>

theorem validateEmbedding_cases_witness:
  "validateEmbedding default_environment
     (parse_result (Inr (JArray (replicate 512 (JNumber (Fin (1 / 2))))))) ''[0.5, 0.5]''
     = Inr (replicate 512 (JNumber (Fin (1 / 2))))
   \<and> validateEmbedding default_environment
     (parse_result (Inr (JArray (replicate 511 (JNumber (Fin (1 / 2))))))) ''[0.5, 0.5]''
     = Inl (AppError INVALID_EMBEDDING_FORMAT ValidationError 400)
   \<and> validateEmbedding default_environment
     (parse_result (Inr (JArray (replicate 512 JNull)))) ''[null, null]''
     = Inl (AppError INVALID_EMBEDDING_VALUES ValidationError 400)
   \<and> validateEmbedding default_environment
     (parse_result (Inr (JString ''abc''))) ''abc''
     = Inl (AppError INVALID_EMBEDDING_FORMAT ValidationError 400)
   \<and> validateEmbedding default_environment
     (parse_result (Inl ''Unexpected token N in JSON at position 1'')) ''[NaN]''
     = Inl (AppError ''Invalid embedding format: Unexpected token N in JSON at position 1''
              ValidationError 400)"
proof -
  let ?ok = "replicate 512 (JNumber (Fin (1 / 2)))"
  let ?short = "replicate 511 (JNumber (Fin (1 / 2)))"
  let ?nulls = "replicate 512 JNull"
  note t = validateEmbedding_cases [of default_environment]
  have a: "validateEmbedding default_environment (parse_result (Inr (JArray ?ok))) ''[0.5, 0.5]''
      = Inr ?ok"
    using t [of "parse_result (Inr (JArray ?ok))" "''[0.5, 0.5]''" ?ok]
    by (simp add: parse_result_def)
  have b: "validateEmbedding default_environment (parse_result (Inr (JArray ?short)))
      ''[0.5, 0.5]'' = Inl (AppError INVALID_EMBEDDING_FORMAT ValidationError 400)"
    using t [of "parse_result (Inr (JArray ?short))" "''[0.5, 0.5]''" _ ?short]
    by (simp add: parse_result_def)
  have c: "validateEmbedding default_environment (parse_result (Inr (JArray ?nulls)))
      ''[null, null]'' = Inl (AppError INVALID_EMBEDDING_VALUES ValidationError 400)"
    using t [of "parse_result (Inr (JArray ?nulls))" "''[null, null]''" _ ?nulls]
    by (simp add: parse_result_def)
  have d: "validateEmbedding default_environment (parse_result (Inr (JString ''abc''))) ''abc''
      = Inl (AppError INVALID_EMBEDDING_FORMAT ValidationError 400)"
    using t [of "parse_result (Inr (JString ''abc''))" "''abc''" _ _ "JString ''abc''"]
    by (simp add: parse_result_def)
  have e: "validateEmbedding default_environment
     (parse_result (Inl ''Unexpected token N in JSON at position 1'')) ''[NaN]''
     = Inl (AppError ''Invalid embedding format: Unexpected token N in JSON at position 1''
              ValidationError 400)"
    using t [of "parse_result (Inl ''Unexpected token N in JSON at position 1'')" "''[NaN]''"
        _ _ _ "''Unexpected token N in JSON at position 1''"]
    by (simp add: parse_result_def)
  from a b c d e show ?thesis by blast
qed

section \<open>Properties of the similarity comparator\<close>

lemma fold_upt_nth: "fold (\<lambda>i. f (xs ! i)) [0..<length xs] s = fold f xs s"
proof (induction xs arbitrary: s rule: rev_induct)
  case Nil
  show ?case by simp
next
  case (snoc x xs)
  have "fold (\<lambda>i. f ((xs @ [x]) ! i)) [0..<length xs] s = fold (\<lambda>i. f (xs ! i)) [0..<length xs] s"
    by (rule fold_cong) (simp_all add: nth_append)
  then show ?case by (simp add: snoc.IH)
qed

text \<open>The three accumulators of the loop evolve independently.\<close>

lemma fold_cosine_step:
  "fold (cosine_step rnd a b) js (d, na, nb) =
     (fold (\<lambda>i acc. js_add rnd acc (js_mul rnd (a ! i) (b ! i))) js d,
      fold (\<lambda>i acc. js_add rnd acc (js_mul rnd (a ! i) (a ! i))) js na,
      fold (\<lambda>i acc. js_add rnd acc (js_mul rnd (b ! i) (b ! i))) js nb)"
  by (induction js arbitrary: d na nb) (simp_all add: cosine_step_def)

lemma cosine_loop:
  assumes "length a = length b"
  shows "fold (cosine_step rnd a b) [0..<length a] (Fin 0, Fin 0, Fin 0) =
     (dot_product rnd a b, sum_of_squares rnd a, sum_of_squares rnd b)"
proof -
  have "fold (\<lambda>i acc. js_add rnd acc (js_mul rnd (a ! i) (a ! i))) [0..<length a] (Fin 0)
      = sum_of_squares rnd a"
    unfolding sum_of_squares_def
    by (rule fold_upt_nth [of "\<lambda>v acc. js_add rnd acc (js_mul rnd v v)"])
  moreover have "fold (\<lambda>i acc. js_add rnd acc (js_mul rnd (b ! i) (b ! i))) [0..<length b] (Fin 0)
      = sum_of_squares rnd b"
    unfolding sum_of_squares_def
    by (rule fold_upt_nth [of "\<lambda>v acc. js_add rnd acc (js_mul rnd v v)"])
  ultimately show ?thesis
    using assms by (simp add: fold_cosine_step dot_product_def)
qed

lemma cosineSimilarity_Some:
  assumes "length a = length b"
  shows "cosineSimilarity rnd (Some a) (Some b) =
    (if sum_of_squares rnd a = Fin 0 \<or> sum_of_squares rnd b = Fin 0 then Some (Fin 0)
     else Some (js_div rnd (dot_product rnd a b)
                  (js_mul rnd (js_sqrt rnd (sum_of_squares rnd a))
                     (js_sqrt rnd (sum_of_squares rnd b)))))"
proof -
  note loop = cosine_loop [OF assms, of rnd]
  have "length a \<noteq> length b \<longleftrightarrow> False" using assms by simp
  then show ?thesis
    unfolding cosineSimilarity_def option.case loop by simp
qed

lemma js_mul_commute: "js_mul rnd a b = js_mul rnd b a"
  by (cases a; cases b) (auto simp add: mult.commute)

lemma dot_product_commute:
  assumes "length a = length b"
  shows "dot_product rnd a b = dot_product rnd b a"
proof -
  have "(\<lambda>i acc. js_add rnd acc (js_mul rnd (a ! i) (b ! i)))
      = (\<lambda>i acc. js_add rnd acc (js_mul rnd (b ! i) (a ! i)))"
    by (simp add: js_mul_commute [of rnd "a ! _" "b ! _"])
  then show ?thesis using assms by (simp add: dot_product_def)
qed

text \<open>
  The two orders of the arguments give the same value, under every rounding. The value
  may be \<open>NaN\<close>, which the comparison \<open>==\<close> of JavaScript does not take for equal to
  itself.
\<close>

lemma cosineSimilarity_commute:
  assumes "length a = length b"
  shows "cosineSimilarity rnd (Some a) (Some b) = cosineSimilarity rnd (Some b) (Some a)"
  using assms
  by (simp add: cosineSimilarity_Some dot_product_commute [of a b] disj_commute
      js_mul_commute [of rnd "js_sqrt rnd (sum_of_squares rnd a)"])

subsection \<open>Exact arithmetic\<close>

lemma sum_of_squares_dot_product: "sum_of_squares rnd v = dot_product rnd v v"
  unfolding sum_of_squares_def dot_product_def
  by (rule fold_upt_nth [of "\<lambda>val norm. js_add rnd norm (js_mul rnd val val)", symmetric])

lemma fold_add_sum:
  fixes f :: "nat \<Rightarrow> real"
  shows "fold (\<lambda>i acc. js_add exact acc (exact (f i))) [0..<n] (Fin s)
    = Fin (s + (\<Sum>i<n. f i))"
  by (induction n) (simp_all add: exact_def)

lemma dot_product_exact:
  assumes "length a = length b"
  shows "dot_product exact (map Fin a) (map Fin b) = Fin (\<Sum>i<length a. a ! i * b ! i)"
proof -
  have "fold (\<lambda>i acc. js_add exact acc (js_mul exact (map Fin a ! i) (map Fin b ! i)))
          [0..<length a] (Fin 0)
      = fold (\<lambda>i acc. js_add exact acc (exact (a ! i * b ! i)))
          [0..<length a] (Fin 0)"
    using assms by (intro fold_cong) simp_all
  then show ?thesis
    by (simp add: dot_product_def fold_add_sum)
qed

text \<open>The Cauchy-Schwarz inequality for finite sums, by induction on the number of terms.\<close>

lemma cauchy_schwarz_step:
  fixes A B D x y :: real
  assumes "D\<^sup>2 \<le> A * B" and "0 \<le> A" and "0 \<le> B"
  shows "(D + x * y)\<^sup>2 \<le> (A + x * x) * (B + y * y)"
proof -
  have nonneg: "0 \<le> A * (y * y) + B * (x * x)"
    using assms by simp
  have "(2 * D * x * y)\<^sup>2 = 4 * D\<^sup>2 * (x * y)\<^sup>2"
    by (simp add: power2_eq_square)
  also have "\<dots> \<le> 4 * (A * B) * (x * y)\<^sup>2"
    using assms(1) by (simp add: mult_right_mono)
  also have "\<dots> \<le> 4 * (A * B) * (x * y)\<^sup>2 + (A * (y * y) - B * (x * x))\<^sup>2"
    by simp
  also have "\<dots> = (A * (y * y) + B * (x * x))\<^sup>2"
    by (simp add: power2_eq_square algebra_simps)
  finally have "2 * D * x * y \<le> A * (y * y) + B * (x * x)"
    using nonneg by (rule power2_le_imp_le)
  moreover have "(D + x * y)\<^sup>2 = D\<^sup>2 + 2 * D * x * y + (x * y)\<^sup>2"
    by (simp add: power2_eq_square algebra_simps)
  moreover have "(A + x * x) * (B + y * y) = A * B + (A * (y * y) + B * (x * x)) + (x * y)\<^sup>2"
    by (simp add: power2_eq_square algebra_simps)
  ultimately show ?thesis using assms(1) by linarith
qed

lemma cauchy_schwarz_sum:
  fixes f g :: "nat \<Rightarrow> real"
  shows "(\<Sum>i<n. f i * g i)\<^sup>2 \<le> (\<Sum>i<n. f i * f i) * (\<Sum>i<n. g i * g i)"
proof (induction n)
  case 0
  show ?case by simp
next
  case (Suc n)
  have "0 \<le> (\<Sum>i<n. f i * f i)" and "0 \<le> (\<Sum>i<n. g i * g i)"
    by (simp_all add: sum_nonneg)
  with Suc show ?case
    by (simp add: cauchy_schwarz_step)
qed

text \<open>
  Without rounding, the similarity of two vectors of finite numbers of equal length lies
  in the closed interval from -1 to 1.
\<close>

lemma cosineSimilarity_exact_bounded:
  assumes "length a = length b"
  shows "\<exists>r. cosineSimilarity exact (Some (map Fin a)) (Some (map Fin b)) = Some (Fin r)
    \<and> - 1 \<le> r \<and> r \<le> 1"
proof -
  define A where "A = (\<Sum>i<length a. a ! i * a ! i)"
  define B where "B = (\<Sum>i<length a. b ! i * b ! i)"
  define D where "D = (\<Sum>i<length a. a ! i * b ! i)"
  have sa: "sum_of_squares exact (map Fin a) = Fin A"
    by (simp add: sum_of_squares_dot_product dot_product_exact A_def)
  have sb: "sum_of_squares exact (map Fin b) = Fin B"
    using assms by (simp add: sum_of_squares_dot_product dot_product_exact B_def)
  have d: "dot_product exact (map Fin a) (map Fin b) = Fin D"
    using assms by (simp add: dot_product_exact D_def)
  have A0: "0 \<le> A" and B0: "0 \<le> B"
    by (simp_all add: A_def B_def sum_nonneg)
  show ?thesis
  proof (cases "A = 0 \<or> B = 0")
    case True
    then show ?thesis using assms by (auto simp add: cosineSimilarity_Some sa sb)
  next
    case False
    with A0 B0 have pos: "0 < sqrt A * sqrt B" by simp
    have "D\<^sup>2 \<le> A * B"
      unfolding A_def B_def D_def by (rule cauchy_schwarz_sum)
    then have "sqrt (D\<^sup>2) \<le> sqrt (A * B)"
      by (rule real_sqrt_le_mono)
    then have "\<bar>D\<bar> \<le> sqrt A * sqrt B"
      by (simp add: real_sqrt_mult)
    then have "\<bar>D / (sqrt A * sqrt B)\<bar> \<le> 1"
      using pos by simp
    then have "- 1 \<le> D / (sqrt A * sqrt B) \<and> D / (sqrt A * sqrt B) \<le> 1"
      by linarith
    moreover have "cosineSimilarity exact (Some (map Fin a)) (Some (map Fin b))
        = Some (Fin (D / (sqrt A * sqrt B)))"
      using assms False A0 B0 pos by (simp add: cosineSimilarity_Some sa sb d exact_def)
    ultimately show ?thesis by blast
  qed
qed

subsection \<open>Rounding to binary64\<close>

text \<open>Rounding to an integer moves a real by at most one half.\<close>

lemma round_ties_even_error: "\<bar>of_int (round_ties_even y) - y\<bar> \<le> 1 / 2"
  unfolding round_ties_even_def Let_def by (auto simp: abs_le_iff)

text \<open>A nonzero real lies in the binade of the floor of its binary logarithm.\<close>

lemma binade:
  assumes "x \<noteq> 0"
  shows "2 powi \<lfloor>log 2 \<bar>x\<bar>\<rfloor> \<le> \<bar>x\<bar>" and "\<bar>x\<bar> < 2 powi (\<lfloor>log 2 \<bar>x\<bar>\<rfloor> + 1)"
proof -
  let ?e = "\<lfloor>log 2 \<bar>x\<bar>\<rfloor>"
  have pos: "0 < \<bar>x\<bar>" using assms by simp
  have x: "\<bar>x\<bar> = 2 powr (log 2 \<bar>x\<bar>)" using pos by simp
  have "2 powr (of_int ?e) \<le> 2 powr (log 2 \<bar>x\<bar>)"
    by (rule powr_mono) simp_all
  then show "2 powi ?e \<le> \<bar>x\<bar>"
    using x by (simp add: powr_real_of_int')
  have "log 2 \<bar>x\<bar> < of_int (?e + 1)" by linarith
  then have "2 powr (log 2 \<bar>x\<bar>) < 2 powr (of_int (?e + 1))"
    by (rule powr_less_mono) simp
  moreover have "(2::real) powr (of_int (?e + 1)) = 2 powi (?e + 1)"
    by (rule powr_real_of_int') simp_all
  ultimately show "\<bar>x\<bar> < 2 powi (?e + 1)"
    using x by (simp only:)
qed

text \<open>
  The number \<open>r\<close> that rounding to 53 bits makes of \<open>x\<close>, before the test for
  overflow: the error is at most \<open>|x| * 2^(-53)\<close> in the normal range and at most
  \<open>2^(-1075)\<close> in the subnormal range.
\<close>

lemma binary64_rounds:
  assumes "x \<noteq> 0"
  shows "\<exists>r. \<bar>r - x\<bar> \<le> \<bar>x\<bar> * unit_roundoff + tiny
    \<and> binary64 x = (if 2 ^ 1024 \<le> \<bar>r\<bar> then (if 0 < x then PosInfinity else NegInfinity) else Fin r)"
proof -
  let ?e = "\<lfloor>log 2 \<bar>x\<bar>\<rfloor>"
  define q where "q = max ?e (- 1022) - 52"
  define p :: real where "p = 2 powi q"
  define r where "r = of_int (round_ties_even (x / p)) * p"
  have p: "0 < p" by (simp add: p_def)
  have "r - x = (of_int (round_ties_even (x / p)) - x / p) * p"
    using p by (simp add: r_def left_diff_distrib)
  then have "\<bar>r - x\<bar> = \<bar>of_int (round_ties_even (x / p)) - x / p\<bar> * p"
    using p by (simp add: abs_mult)
  also have "\<dots> \<le> 1 / 2 * p"
    using p by (intro mult_right_mono round_ties_even_error) simp
  finally have err: "\<bar>r - x\<bar> \<le> p / 2" by simp
  have "p / 2 \<le> \<bar>x\<bar> * unit_roundoff + tiny"
  proof (cases "- 1022 \<le> ?e")
    case True
    then have "q = ?e - 52" by (simp add: q_def)
    then have "p = 2 powi ?e / 2 ^ 52"
      by (simp add: p_def power_int_diff)
    then have "p / 2 = 2 powi ?e * unit_roundoff"
      by (simp add: unit_roundoff_def)
    also have "\<dots> \<le> \<bar>x\<bar> * unit_roundoff"
      using binade(1) [OF assms] by (intro mult_right_mono) (simp_all add: unit_roundoff_def)
    finally show ?thesis by (simp add: tiny_def)
  next
    case False
    then have "q = - 1074" by (simp add: q_def)
    then have "p = 1 / 2 ^ 1074"
      by (simp add: p_def power_int_minus inverse_eq_divide)
    then have "p / 2 = tiny" by (simp add: tiny_def)
    moreover have "0 \<le> \<bar>x\<bar> * unit_roundoff" by (simp add: unit_roundoff_def)
    ultimately show ?thesis by linarith
  qed
  with err have "\<bar>r - x\<bar> \<le> \<bar>x\<bar> * unit_roundoff + tiny" by linarith
  moreover have "binary64 x = (if 2 ^ 1024 \<le> \<bar>r\<bar> then (if 0 < x then PosInfinity else NegInfinity) else Fin r)"
    using assms unfolding binary64_def Let_def r_def p_def q_def by (simp only: if_False)
  ultimately show ?thesis by blast
qed

lemma unit_roundoff_bounds: "0 < unit_roundoff" "unit_roundoff \<le> 1 / 4"
  by (simp_all add: unit_roundoff_def)

lemma tiny_bounds: "0 < tiny" "tiny \<le> 1 / 4"
  by (simp_all add: tiny_def)

lemma huge_bounds: "4 \<le> huge" "2 ^ 1024 = 2 * huge"
  by (simp_all add: huge_def)

text \<open>A real of magnitude at most \<open>2^1023\<close> is rounded to a finite number.\<close>

lemma binary64_error:
  assumes "\<bar>x\<bar> \<le> huge"
  shows "\<exists>r. binary64 x = Fin r \<and> \<bar>r - x\<bar> \<le> \<bar>x\<bar> * unit_roundoff + tiny"
proof (cases "x = 0")
  case True
  then show ?thesis using tiny_bounds(1) by (simp add: binary64_def)
next
  case False
  from binary64_rounds [OF False] obtain r where
    err: "\<bar>r - x\<bar> \<le> \<bar>x\<bar> * unit_roundoff + tiny" and
    val: "binary64 x = (if 2 ^ 1024 \<le> \<bar>r\<bar> then (if 0 < x then PosInfinity else NegInfinity) else Fin r)"
    by blast
  have "\<bar>x\<bar> * unit_roundoff \<le> huge * (1 / 4)"
    using assms unit_roundoff_bounds by (intro mult_mono) simp_all
  with err assms tiny_bounds(2) huge_bounds(1) have "\<bar>r\<bar> < 2 * huge" by linarith
  then have "\<not> 2 ^ 1024 \<le> \<bar>r\<bar>" by (simp only: huge_bounds(2) not_le)
  with val have "binary64 x = Fin r" by (simp only: if_False)
  with err show ?thesis by blast
qed

text \<open>A real strictly within half a unit of an integer rounds to that integer.\<close>

lemma round_ties_even_nearest:
  assumes "of_int n - 1 / 2 < x" and "x < of_int n + 1 / 2"
  shows "round_ties_even x = n"
proof (cases "of_int n \<le> x")
  case True
  with assms have "\<lfloor>x\<rfloor> = n" by (intro floor_unique) simp_all
  with assms show ?thesis by (simp add: round_ties_even_def Let_def)
next
  case False
  with assms have "\<lfloor>x\<rfloor> = n - 1" by (intro floor_unique) simp_all
  with assms False show ?thesis by (simp add: round_ties_even_def Let_def)
qed

lemma round_ties_even_of_int: "round_ties_even (of_int n) = n"
  by (rule round_ties_even_nearest) simp_all

lemma floor_log2:
  assumes "2 powi e \<le> \<bar>x\<bar>" and "\<bar>x\<bar> < 2 powi (e + 1)"
  shows "\<lfloor>log 2 \<bar>x\<bar>\<rfloor> = e"
proof -
  have pos: "0 < \<bar>x\<bar>"
  proof -
    have "(0::real) < 2 powi e" by simp
    with assms(1) show ?thesis by linarith
  qed
  have p: "(2::real) powr (of_int k) = 2 powi k" for k
    by (rule powr_real_of_int') simp_all
  have "of_int e \<le> log 2 \<bar>x\<bar>"
    using assms(1) pos by (simp add: le_log_iff p)
  moreover have "log 2 \<bar>x\<bar> < of_int e + 1"
  proof -
    have "log 2 \<bar>x\<bar> < of_int (e + 1) \<longleftrightarrow> \<bar>x\<bar> < 2 powr of_int (e + 1)"
      using pos by (intro log_less_iff) simp_all
    then have "log 2 \<bar>x\<bar> < of_int (e + 1)"
      using assms(2) unfolding p by blast
    then show ?thesis by simp
  qed
  ultimately show ?thesis
    by (intro floor_unique)
qed

text \<open>A number that does not overflow is rounded on the grid of its binade.\<close>

lemma binary64_finite:
  assumes "2 powi e \<le> \<bar>x\<bar>" and "\<bar>x\<bar> < 2 powi (e + 1)" and "\<bar>x\<bar> \<le> huge"
  shows "binary64 x = Fin (of_int (round_ties_even (x / 2 powi (max e (- 1022) - 52)))
      * 2 powi (max e (- 1022) - 52))"
proof -
  let ?r = "of_int (round_ties_even (x / 2 powi (max e (- 1022) - 52)))
      * 2 powi (max e (- 1022) - 52) :: real"
  have "(0::real) < 2 powi e" by simp
  with assms(1) have "0 < \<bar>x\<bar>" by linarith
  then have nz: "x \<noteq> 0" by simp
  have val: "binary64 x =
      (if 2 ^ 1024 \<le> \<bar>?r\<bar> then (if 0 < x then PosInfinity else NegInfinity) else Fin ?r)"
    using nz unfolding binary64_def Let_def floor_log2 [OF assms(1) assms(2)]
    by (simp only: if_False)
  from binary64_error [OF assms(3)] obtain r' where "binary64 x = Fin r'" by blast
  with val have "\<not> 2 ^ 1024 \<le> \<bar>?r\<bar>"
    by (auto split: if_splits)
  with val show ?thesis by (simp only: if_False)
qed

text \<open>
  For \<open>1 \<le> 2^k \<le> |x| < 2^(k+1)\<close> with \<open>k \<le> 52\<close> the spacing of binary64 numbers is
  \<open>2^(k-52)\<close>.
\<close>

lemma binary64_binade:
  assumes "2 ^ k \<le> \<bar>x\<bar>" and "\<bar>x\<bar> < 2 ^ Suc k" and "k \<le> 52"
  shows "binary64 x = Fin (of_int (round_ties_even (x * 2 ^ (52 - k))) / 2 ^ (52 - k))"
proof -
  have a: "2 powi (int k) \<le> \<bar>x\<bar>" using assms(1) by simp
  have b: "\<bar>x\<bar> < 2 powi (int k + 1)"
    using assms(2) by (simp add: power_int_add)
  have "(2::real) ^ Suc k \<le> 2 ^ 53"
    using assms(3) by (intro power_increasing) simp_all
  also have "\<dots> \<le> huge"
    by (simp add: huge_def)
  finally have c: "\<bar>x\<bar> \<le> huge" using assms(2) by linarith
  have q: "max (int k) (- 1022) - 52 = - int (52 - k)"
    using assms(3) by linarith
  have pw: "(2::real) powi (- int (52 - k)) = 1 / 2 ^ (52 - k)"
    by (simp only: power_int_minus power_int_of_nat inverse_eq_divide)
  have "binary64 x = Fin (of_int (round_ties_even (x / (1 / 2 ^ (52 - k)))) * (1 / 2 ^ (52 - k)))"
    using binary64_finite [OF a b c] by (simp only: q pw)
  also have "\<dots> = Fin (of_int (round_ties_even (x * 2 ^ (52 - k))) / 2 ^ (52 - k))"
    by (simp only: divide_divide_eq_right mult_1 times_divide_eq_right mult_1_right div_by_1)
  finally show ?thesis .
qed

lemma binary64_1: "binary64 1 = Fin 1"
proof -
  have "round_ties_even (1 * 2 ^ (52 - 0)) = 2 ^ 52"
    using round_ties_even_of_int [of "2 ^ 52"] by simp
  then show ?thesis
    using binary64_binade [of 0 1] by simp
qed

lemma binary64_2: "binary64 2 = Fin 2"
proof -
  have "round_ties_even (2 * 2 ^ (52 - 1)) = 2 ^ 52"
    using round_ties_even_of_int [of "2 ^ 52"] by simp
  then show ?thesis
    using binary64_binade [of 1 2] by simp
qed

lemma binary64_3: "binary64 3 = Fin 3"
proof -
  have "round_ties_even (3 * 2 ^ (52 - 1)) = 3 * 2 ^ 51"
    using round_ties_even_of_int [of "3 * 2 ^ 51"] by simp
  then show ?thesis
    using binary64_binade [of 1 3] by simp
qed

text \<open>
  The three roundings met when \<open>cosineSimilarity\<close> runs on \<open>[1, 1, 1]\<close> twice:
  \<open>Math.sqrt(3)\<close> is 1.7320508075688772, its square is rounded to
  2.9999999999999996 (that is \<open>3 - 2^(-51)\<close>), and 3 divided by that is rounded to
  1.0000000000000002 (that is \<open>1 + 2^(-52)\<close>).
\<close>

lemma sqrt3_lower: "15600926743107923 / 9007199254740992 < sqrt 3"
  by (rule real_less_rsqrt) (simp add: power2_eq_square)

lemma sqrt3_upper: "sqrt 3 < 15600926743107925 / 9007199254740992"
  by (rule real_less_lsqrt) (simp_all add: power2_eq_square)

lemma binary64_sqrt3: "binary64 (sqrt 3) = Fin (7800463371553962 / 4503599627370496)"
proof -
  have r: "round_ties_even (sqrt 3 * 2 ^ (52 - 0)) = 7800463371553962"
    using sqrt3_lower sqrt3_upper by (intro round_ties_even_nearest) simp_all
  have "1 \<le> sqrt 3" by simp
  moreover have "sqrt 3 < 2" by (rule real_less_lsqrt) simp_all
  ultimately have "binary64 (sqrt 3) = Fin (of_int (round_ties_even (sqrt 3 * 2 ^ (52 - 0))) / 2 ^ (52 - 0))"
    by (intro binary64_binade) simp_all
  then show ?thesis by (simp only: r) simp
qed

lemma binary64_square:
  "binary64 (7800463371553962 / 4503599627370496 * (7800463371553962 / 4503599627370496))
     = Fin (6755399441055743 / 2251799813685248)"
proof -
  let ?p = "7800463371553962 / 4503599627370496 * (7800463371553962 / 4503599627370496) :: real"
  have r: "round_ties_even (?p * 2 ^ (52 - 1)) = 6755399441055743"
    by (intro round_ties_even_nearest) simp_all
  have "binary64 ?p = Fin (of_int (round_ties_even (?p * 2 ^ (52 - 1))) / 2 ^ (52 - 1))"
    by (intro binary64_binade) simp_all
  then show ?thesis by (simp only: r) simp
qed

lemma binary64_quotient:
  "binary64 (3 / (6755399441055743 / 2251799813685248))
     = Fin (4503599627370497 / 4503599627370496)"
proof -
  let ?q = "3 / (6755399441055743 / 2251799813685248) :: real"
  have r: "round_ties_even (?q * 2 ^ (52 - 0)) = 4503599627370497"
    by (intro round_ties_even_nearest) simp_all
  have "binary64 ?q = Fin (of_int (round_ties_even (?q * 2 ^ (52 - 0))) / 2 ^ (52 - 0))"
    by (intro binary64_binade) simp_all
  then show ?thesis by (simp only: r) simp
qed

subsection \<open>Failure and zero results\<close>

text \<open>
  Claim C4, as the code has it. \<open>cosineSimilarity\<close> returns \<open>null\<close> exactly when a
  vector is missing (\<open>null\<close> or \<open>undefined\<close>) or the two lengths differ; in particular
  when exactly one vector is empty. When the lengths match and the sum of squares the
  loop computed for either vector is exactly 0, the result is 0. This holds for every
  rounding of the arithmetic.
\<close>

theorem cosineSimilarity_null_or_zero:
  "((cosineSimilarity rnd vectorA vectorB = None) \<longleftrightarrow>
      (vectorA = None \<or> vectorB = None
        \<or> (\<exists>a b. vectorA = Some a \<and> vectorB = Some b \<and> length a \<noteq> length b)))
   \<and> (length a = length b \<and> (sum_of_squares rnd a = Fin 0 \<or> sum_of_squares rnd b = Fin 0) \<longrightarrow>
        cosineSimilarity rnd (Some a) (Some b) = Some (Fin 0))"
proof (intro conjI impI)
  show "(cosineSimilarity rnd vectorA vectorB = None) \<longleftrightarrow>
      (vectorA = None \<or> vectorB = None
        \<or> (\<exists>a b. vectorA = Some a \<and> vectorB = Some b \<and> length a \<noteq> length b))"
  proof (cases vectorA)
    case None
    then show ?thesis by (simp add: cosineSimilarity_def)
  next
    case (Some a')
    note A = this
    show ?thesis
    proof (cases vectorB)
      case None
      with A show ?thesis by (simp add: cosineSimilarity_def)
    next
      case (Some b')
      show ?thesis
      proof (cases "length a' = length b'")
        case True
        with A Some show ?thesis by (simp add: cosineSimilarity_Some)
      next
        case False
        with A Some show ?thesis by (simp add: cosineSimilarity_def)
      qed
    qed
  qed
next
  assume "length a = length b \<and> (sum_of_squares rnd a = Fin 0 \<or> sum_of_squares rnd b = Fin 0)"
  then show "cosineSimilarity rnd (Some a) (Some b) = Some (Fin 0)"
    by (simp add: cosineSimilarity_Some)
qed

text \<open>
  Against claim C4 as stated: two empty vectors have equal lengths, and an empty array
  is not falsy, so the result is 0, not \<open>null\<close>.
\<close>

theorem cosineSimilarity_empty_counterexample:
  "cosineSimilarity exact (Some []) (Some []) = Some (Fin 0)
   \<and> cosineSimilarity binary64 (Some []) (Some []) = Some (Fin 0)"
  by (simp add: cosineSimilarity_def)

text \<open>Different lengths, a missing vector, and a zero vector.\<close>

theorem cosineSimilarity_null_or_zero_witness:
  "cosineSimilarity exact (Some [Fin 1, Fin 2]) (Some []) = None
   \<and> cosineSimilarity exact None (Some [Fin 1, Fin 2]) = None
   \<and> cosineSimilarity exact (Some [Fin 0, Fin 0]) (Some [Fin 3, Fin 4]) = Some (Fin 0)"
proof -
  have a: "cosineSimilarity exact (Some [Fin 1, Fin 2]) (Some []) = None"
    using cosineSimilarity_null_or_zero [of exact "Some [Fin 1, Fin 2]" "Some []"] by simp
  have b: "cosineSimilarity exact None (Some [Fin 1, Fin 2]) = None"
    using cosineSimilarity_null_or_zero [of exact None "Some [Fin 1, Fin 2]"] by simp
  have "sum_of_squares exact [Fin 0, Fin 0] = Fin 0"
    by (simp add: sum_of_squares_def exact_def)
  then have c: "cosineSimilarity exact (Some [Fin 0, Fin 0]) (Some [Fin 3, Fin 4]) = Some (Fin 0)"
    using cosineSimilarity_null_or_zero [of exact _ _ "[Fin 0, Fin 0]" "[Fin 3, Fin 4]"] by simp
  from a b c show ?thesis by blast
qed

subsection \<open>Range\<close>

text \<open>The loop on \<open>[1, 1, 1]\<close> in binary64: every partial sum is a small integer.\<close>

lemma sum_of_squares_binary64_ones: "sum_of_squares binary64 [Fin 1, Fin 1, Fin 1] = Fin 3"
  by (simp add: sum_of_squares_def binary64_1 binary64_2 binary64_3)

lemma dot_product_binary64_ones: "dot_product binary64 [Fin 1, Fin 1, Fin 1] [Fin 1, Fin 1, Fin 1] = Fin 3"
  by (simp add: dot_product_def numeral_3_eq_3 binary64_1 binary64_2 binary64_3)

text \<open>
  Claim C3 asks that the similarity of two equal-length vectors of finite numbers with
  nonzero norms lie in the closed interval from -1 to 1. In binary64 the similarity of
  \<open>[1, 1, 1]\<close> with itself is
  \<open>3 / (Math.sqrt(3) * Math.sqrt(3)) = 3 / 2.9999999999999996 = 1.0000000000000002\<close>,
  which is \<open>1 + 2^(-52)\<close> and lies above the interval: the quotient is returned as
  computed.
\<close>

theorem cosineSimilarity_exceeds_one:
  "cosineSimilarity binary64 (Some [Fin 1, Fin 1, Fin 1]) (Some [Fin 1, Fin 1, Fin 1])
     = Some (Fin (4503599627370497 / 4503599627370496))
   \<and> (1::real) < 4503599627370497 / 4503599627370496"
proof
  have "cosineSimilarity binary64 (Some [Fin 1, Fin 1, Fin 1]) (Some [Fin 1, Fin 1, Fin 1])
      = Some (js_div binary64 (Fin 3) (js_mul binary64 (binary64 (sqrt 3)) (binary64 (sqrt 3))))"
    by (simp add: cosineSimilarity_Some sum_of_squares_binary64_ones dot_product_binary64_ones)
  also have "\<dots> = Some (Fin (4503599627370497 / 4503599627370496))"
    by (simp only: binary64_sqrt3 js_mul.simps binary64_square js_div.simps binary64_quotient) simp
  finally show "cosineSimilarity binary64 (Some [Fin 1, Fin 1, Fin 1]) (Some [Fin 1, Fin 1, Fin 1])
      = Some (Fin (4503599627370497 / 4503599627370496))" .
next
  show "(1::real) < 4503599627370497 / 4503599627370496" by simp
qed

section \<open>Properties of the horizontal flip\<close>

lemma fold_concat_map:
  "fold g (concat (map h xs)) = fold (\<lambda>x. fold g (h x)) xs"
proof
  fix s
  show "fold g (concat (map h xs)) s = fold (\<lambda>x. fold g (h x)) xs s"
    by (induction xs arbitrary: s) simp_all
qed

lemma set_flip_positions:
  "(y, x, c) \<in> set (flip_positions height width) \<longleftrightarrow> y < height \<and> x < width \<and> c < 3"
  by (force simp: flip_positions_def)

lemma flipHorizontal_flat:
  "flipHorizontal nhwcData height width =
     fold (\<lambda>p flipped. flipped[flip_dst width p := typed_read nhwcData (flip_src width p)])
       (flip_positions height width) (replicate (height * width * 3) (Fin 0))"
  unfolding flipHorizontal_def flip_positions_def Let_def fold_concat_map fold_map comp_def
    flip_dst_def flip_src_def prod.case
  by (rule refl)

text \<open>
  A sequence of array writes: when every write to index \<open>j\<close> stores the same value, that
  value is what the array holds at \<open>j\<close> afterwards.
\<close>

lemma length_fold_update:
  "length (fold (\<lambda>p fl. fl[d p := v p]) ps fl0) = length fl0"
  by (induction ps arbitrary: fl0) simp_all

lemma nth_fold_update:
  assumes "\<forall>p \<in> set ps. d p = j \<longrightarrow> v p = V" and "j < length fl0"
  shows "fold (\<lambda>p fl. fl[d p := v p]) ps fl0 ! j
    = (if \<exists>p \<in> set ps. d p = j then V else fl0 ! j)"
  using assms
proof (induction ps arbitrary: fl0 rule: rev_induct)
  case Nil
  show ?case by simp
next
  case (snoc p ps)
  let ?r = "fold (\<lambda>p fl. fl[d p := v p]) ps fl0"
  have len: "length ?r = length fl0" by (rule length_fold_update)
  have IH: "?r ! j = (if \<exists>p \<in> set ps. d p = j then V else fl0 ! j)"
    using snoc by simp
  show ?case
  proof (cases "d p = j")
    case True
    with snoc.prems have "v p = V" by simp
    with True len snoc.prems(2) show ?thesis by auto
  next
    case False
    with IH show ?thesis by simp
  qed
qed

lemma div3: "c < 3 \<Longrightarrow> (a * 3 + c) div 3 = (a::nat)"
  by simp

lemma mod3: "c < 3 \<Longrightarrow> (a * 3 + c) mod 3 = (c::nat)"
  by simp

lemma div_width: "r < w \<Longrightarrow> (y * w + r) div w = (y::nat)"
  by simp

lemma mod_width: "r < w \<Longrightarrow> (y * w + r) mod w = (r::nat)"
  by simp

lemma mirror_of_dst:
  assumes "x < width" and "c < 3"
  shows "mirror_index width ((y * width + (width - 1 - x)) * 3 + c) = (y * width + x) * 3 + c"
proof -
  let ?j = "(y * width + (width - 1 - x)) * 3 + c"
  have m: "?j mod 3 = c" using assms(2) by (rule mod3)
  have d: "?j div 3 = y * width + (width - 1 - x)" using assms(2) by (rule div3)
  have lt: "width - 1 - x < width" using assms(1) by simp
  have dy: "(y * width + (width - 1 - x)) div width = y" using lt by (rule div_width)
  have mx: "(y * width + (width - 1 - x)) mod width = width - 1 - x" using lt by (rule mod_width)
  have xx: "width - 1 - (width - 1 - x) = x" using assms(1) by simp
  show ?thesis
    unfolding mirror_index_def m d dy mx xx ..
qed

lemma dst_covers:
  fixes j height width :: nat
  assumes "j < height * width * 3"
  shows "\<exists>y x c. y < height \<and> x < width \<and> c < 3 \<and> (y * width + (width - 1 - x)) * 3 + c = j"
proof -
  have w: "0 < width" using assms by (cases width) simp_all
  let ?p = "j div 3"
  have p: "?p < height * width" using assms by (simp add: less_mult_imp_div_less)
  have y: "?p div width < height"
    using p by (simp add: less_mult_imp_div_less)
  have x': "?p mod width < width" using w by simp
  have xx: "width - 1 - (width - 1 - ?p mod width) = ?p mod width" using x' by simp
  have "(?p div width * width + (width - 1 - (width - 1 - ?p mod width))) * 3 + j mod 3 = j"
    unfolding xx by simp
  moreover have "width - 1 - ?p mod width < width" using w by simp
  ultimately show ?thesis
    using y by (intro exI [of _ "?p div width"] exI [of _ "width - 1 - ?p mod width"]
        exI [of _ "j mod 3"]) simp
qed

lemma mirror_index_less:
  fixes j height width :: nat
  assumes "j < height * width * 3"
  shows "mirror_index width j < height * width * 3"
proof -
  from dst_covers [OF assms] obtain y x c where
    yxc: "y < height" "x < width" "c < 3" "(y * width + (width - 1 - x)) * 3 + c = j"
    by blast
  have "mirror_index width j = (y * width + x) * 3 + c"
    using mirror_of_dst [OF yxc(2,3), of y] yxc(4) by simp
  moreover have "y * width + x < height * width"
  proof -
    have "y * width + x < y * width + width" using yxc(2) by simp
    also have "\<dots> = Suc y * width" by simp
    also have "\<dots> \<le> height * width" using yxc(1) by (intro mult_le_mono1) simp
    finally show ?thesis .
  qed
  ultimately show ?thesis using yxc(3) by simp
qed

lemma mirror_index_involution:
  fixes j height width :: nat
  assumes "j < height * width * 3"
  shows "mirror_index width (mirror_index width j) = j"
proof -
  from dst_covers [OF assms] obtain y x c where
    yxc: "y < height" "x < width" "c < 3" "(y * width + (width - 1 - x)) * 3 + c = j"
    by blast
  have a: "mirror_index width j = (y * width + x) * 3 + c"
    using mirror_of_dst [OF yxc(2,3), of y] yxc(4) by simp
  have lt: "width - 1 - x < width" using yxc(2) by simp
  have xx: "width - 1 - (width - 1 - x) = x" using yxc(2) by simp
  have "mirror_index width ((y * width + (width - 1 - (width - 1 - x))) * 3 + c)
      = (y * width + (width - 1 - x)) * 3 + c"
    by (rule mirror_of_dst [OF lt yxc(3)])
  then show ?thesis
    unfolding xx a [symmetric] yxc(4) .
qed

lemma length_flipHorizontal:
  "length (flipHorizontal nhwcData height width) = height * width * 3"
  unfolding flipHorizontal_flat
  by (simp add: length_fold_update)

text \<open>Every component of the result is the component of the input at the mirrored index.\<close>

lemma nth_flipHorizontal:
  assumes "j < height * width * 3"
  shows "flipHorizontal nhwcData height width ! j = typed_read nhwcData (mirror_index width j)"
proof -
  let ?v = "\<lambda>p. typed_read nhwcData (flip_src width p)"
  let ?ps = "flip_positions height width"
  let ?V = "typed_read nhwcData (mirror_index width j)"
  have same: "\<forall>p \<in> set ?ps. flip_dst width p = j \<longrightarrow> ?v p = ?V"
  proof (intro ballI impI)
    fix p assume p: "p \<in> set ?ps" and dj: "flip_dst width p = j"
    obtain y x c where pyxc: "p = (y, x, c)" by (cases p) auto
    with p have "x < width" "c < 3" by (simp_all add: set_flip_positions)
    from mirror_of_dst [OF this, of y] dj pyxc show "?v p = ?V"
      by (simp add: flip_dst_def flip_src_def)
  qed
  have covered: "\<exists>p \<in> set ?ps. flip_dst width p = j"
  proof -
    from dst_covers [OF assms] obtain y x c where
      "y < height" "x < width" "c < 3" "(y * width + (width - 1 - x)) * 3 + c = j"
      by blast
    then have "(y, x, c) \<in> set ?ps \<and> flip_dst width (y, x, c) = j"
      by (simp add: set_flip_positions flip_dst_def)
    then show ?thesis by blast
  qed
  have "fold (\<lambda>p fl. fl[flip_dst width p := ?v p]) ?ps (replicate (height * width * 3) (Fin 0)) ! j
      = (if \<exists>p \<in> set ?ps. flip_dst width p = j then ?V
         else replicate (height * width * 3) (Fin 0) ! j)"
    using same assms by (intro nth_fold_update) simp_all
  with covered show ?thesis
    unfolding flipHorizontal_flat by simp
qed

text \<open>
  Claim C10. For every height, width and pixel array of length \<open>height * width * 3\<close>
  (a \<open>Float32Array\<close>, as the function documents and the pipeline passes), flipping
  twice gives back the original array.
\<close>

theorem flipHorizontal_involution:
  assumes "length nhwcData = height * width * 3"
  shows "flipHorizontal (flipHorizontal nhwcData height width) height width = nhwcData"
proof (rule nth_equalityI)
  show "length (flipHorizontal (flipHorizontal nhwcData height width) height width)
      = length nhwcData"
    using assms by (simp add: length_flipHorizontal)
next
  fix j
  assume "j < length (flipHorizontal (flipHorizontal nhwcData height width) height width)"
  then have j: "j < height * width * 3" by (simp add: length_flipHorizontal)
  then have m: "mirror_index width j < height * width * 3"
    by (rule mirror_index_less)
  have "flipHorizontal (flipHorizontal nhwcData height width) height width ! j
      = typed_read (flipHorizontal nhwcData height width) (mirror_index width j)"
    using j by (rule nth_flipHorizontal)
  also have "\<dots> = flipHorizontal nhwcData height width ! mirror_index width j"
    using m by (simp add: typed_read_def length_flipHorizontal)
  also have "\<dots> = typed_read nhwcData (mirror_index width (mirror_index width j))"
    using m by (rule nth_flipHorizontal)
  also have "\<dots> = nhwcData ! j"
    using j assms by (simp add: mirror_index_involution typed_read_def)
  finally show "flipHorizontal (flipHorizontal nhwcData height width) height width ! j
      = nhwcData ! j" .
qed

text \<open>An image of one row and two pixels: the flip swaps the pixels, the second flip swaps them back.\<close>

theorem flipHorizontal_involution_witness:
  "flipHorizontal (flipHorizontal [Fin 1, Fin 2, Fin 3, Fin 4, Fin 5, Fin 6] 1 2) 1 2
     = [Fin 1, Fin 2, Fin 3, Fin 4, Fin 5, Fin 6]
   \<and> flipHorizontal [Fin 1, Fin 2, Fin 3, Fin 4, Fin 5, Fin 6] 1 2
     = [Fin 4, Fin 5, Fin 6, Fin 1, Fin 2, Fin 3]"
proof
  show "flipHorizontal (flipHorizontal [Fin 1, Fin 2, Fin 3, Fin 4, Fin 5, Fin 6] 1 2) 1 2
     = [Fin 1, Fin 2, Fin 3, Fin 4, Fin 5, Fin 6]"
    by (rule flipHorizontal_involution) simp
next
  show "flipHorizontal [Fin 1, Fin 2, Fin 3, Fin 4, Fin 5, Fin 6] 1 2
     = [Fin 4, Fin 5, Fin 6, Fin 1, Fin 2, Fin 3]"
    by (simp add: flipHorizontal_def typed_read_def upt_rec numeral_nat)
qed

section \<open>Properties of anchor generation\<close>

lemma fold_push_replicate:
  "fold (\<lambda>a acc. acc @ [v]) [0..<n] = (\<lambda>acc. acc @ replicate n v)"
proof
  fix acc
  show "fold (\<lambda>a acc. acc @ [v]) [0..<n] acc = acc @ replicate n v"
    by (induction n) (simp_all add: replicate_append_same)
qed

lemma fold_append_concat:
  "fold (\<lambda>x acc. acc @ f x) xs = (\<lambda>acc. acc @ concat (map f xs))"
proof
  fix acc
  show "fold (\<lambda>x acc. acc @ f x) xs acc = acc @ concat (map f xs)"
    by (induction xs arbitrary: acc) simp_all
qed

lemma compute_anchors_concat:
  "compute_anchors tsize fms = concat (map (grid_anchors tsize) fms)"
  unfolding compute_anchors_def grid_anchors_def
  by (simp add: fold_push_replicate fold_append_concat map_replicate_const)

text \<open>Indexing into a concatenation of blocks of equal length.\<close>

lemma length_concat_uniform:
  "(\<And>j. j < n \<Longrightarrow> length (f j) = k) \<Longrightarrow> length (concat (map f [0..<n])) = n * k"
  by (induction n) simp_all

lemma nth_concat_uniform:
  assumes "\<And>j. j < n \<Longrightarrow> length (f j) = k" and "i < n * k"
  shows "concat (map f [0..<n]) ! i = f (i div k) ! (i mod k)"
  using assms
proof (induction n)
  case 0
  then show ?case by simp
next
  case (Suc n)
  have len: "length (concat (map f [0..<n])) = n * k"
    using Suc.prems(1) by (intro length_concat_uniform) simp
  have k: "0 < k" using Suc.prems(2) by (cases k) simp_all
  show ?case
  proof (cases "i < n * k")
    case True
    with Suc len show ?thesis by (simp add: nth_append)
  next
    case False
    then have ge: "n * k \<le> i" by simp
    have "i - n * k < k" using Suc.prems(2) ge by simp
    have dv: "i div k = n"
      using ge Suc.prems(2) k by (intro div_nat_eqI) (simp_all add: mult.commute)
    have md: "i mod k = i - n * k"
      using dv by (metis minus_mult_div_eq_mod mult.commute)
    from False len show ?thesis by (simp add: nth_append dv md)
  qed
qed

lemma length_grid_anchors:
  "length (grid_anchors tsize fm) = fm_size fm * (fm_size fm * anchorsPerCell fm)"
  unfolding grid_anchors_def
  by (intro length_concat_uniform) simp

lemma nth_grid_anchors:
  assumes "i < fm_size fm * (fm_size fm * anchorsPerCell fm)"
  shows "grid_anchors tsize fm ! i =
    make_anchor tsize fm
      ((i mod (fm_size fm * anchorsPerCell fm)) div anchorsPerCell fm)
      (i div (fm_size fm * anchorsPerCell fm))"
proof -
  let ?s = "fm_size fm" and ?a = "anchorsPerCell fm"
  let ?row = "\<lambda>y. concat (map (\<lambda>x. replicate ?a (make_anchor tsize fm x y)) [0..<?s])"
  have rowlen: "\<And>y. length (?row y) = ?s * ?a"
    by (intro length_concat_uniform) simp
  have sa: "0 < ?s * ?a" using assms by (cases "?s * ?a") simp_all
  then have a: "0 < ?a" by simp
  have r: "i mod (?s * ?a) < ?s * ?a" using sa by simp
  have c: "(i mod (?s * ?a)) div ?a < ?s"
    using r by (simp add: less_mult_imp_div_less)
  have "grid_anchors tsize fm ! i = ?row (i div (?s * ?a)) ! (i mod (?s * ?a))"
    unfolding grid_anchors_def using rowlen assms by (intro nth_concat_uniform) simp_all
  also have "\<dots> = replicate ?a
        (make_anchor tsize fm ((i mod (?s * ?a)) div ?a) (i div (?s * ?a)))
        ! ((i mod (?s * ?a)) mod ?a)"
    using r by (intro nth_concat_uniform) simp_all
  also have "\<dots> = make_anchor tsize fm ((i mod (?s * ?a)) div ?a) (i div (?s * ?a))"
    using a by simp
  finally show ?thesis .
qed


lemma generateAnchors_new:
  "generateAnchors new_FaceDetectionService =
     (grid_anchors 128 \<lparr>fm_size = 16, fm_stride = 8, anchorsPerCell = 2\<rparr>
        @ grid_anchors 128 \<lparr>fm_size = 8, fm_stride = 16, anchorsPerCell = 6\<rparr>,
      \<lparr>anchors = Some
        (grid_anchors 128 \<lparr>fm_size = 16, fm_stride = 8, anchorsPerCell = 2\<rparr>
          @ grid_anchors 128 \<lparr>fm_size = 8, fm_stride = 16, anchorsPerCell = 6\<rparr>)\<rparr>)"
  by (simp add: generateAnchors_def new_FaceDetectionService_def compute_anchors_concat
      featureMaps_def config_faceDetection_def Let_def)

text \<open>
  Claim C6. On a new service, \<open>_generateAnchors\<close> returns exactly 896 anchors. Anchor
  \<open>i < 512\<close> belongs to the 16 by 16 grid of stride 8: row \<open>y = i div 32\<close>, column
  \<open>x = (i mod 32) div 2\<close>. Anchor \<open>512 \<le> i < 896\<close> belongs to the 8 by 8 grid of stride
  16: with \<open>j = i - 512\<close>, row \<open>y = j div 48\<close>, column \<open>x = (j mod 48) div 6\<close>. Each anchor
  is \<open>{cx: (x + 0.5) * stride / 128, cy: (y + 0.5) * stride / 128, w: stride / 128,
  h: stride / 128}\<close>, 128 being the configured target size. A second call returns the
  same list.
\<close>

theorem generateAnchors_layout:
  "length (fst (generateAnchors new_FaceDetectionService)) = 896
   \<and> (\<forall>i<512. fst (generateAnchors new_FaceDetectionService) ! i =
        \<lparr>anchor_cx = ((real ((i mod 32) div 2) + 5 / 10) * 8) / 128,
         anchor_cy = ((real (i div 32) + 5 / 10) * 8) / 128,
         anchor_w = 8 / 128, anchor_h = 8 / 128\<rparr>)
   \<and> (\<forall>i. 512 \<le> i \<and> i < 896 \<longrightarrow>
        fst (generateAnchors new_FaceDetectionService) ! i =
        \<lparr>anchor_cx = ((real (((i - 512) mod 48) div 6) + 5 / 10) * 16) / 128,
         anchor_cy = ((real ((i - 512) div 48) + 5 / 10) * 16) / 128,
         anchor_w = 16 / 128, anchor_h = 16 / 128\<rparr>)
   \<and> generateAnchors (snd (generateAnchors new_FaceDetectionService))
        = generateAnchors new_FaceDetectionService"
proof (intro conjI allI impI)
  let ?fm1 = "\<lparr>fm_size = 16, fm_stride = 8, anchorsPerCell = 2\<rparr>"
  let ?fm2 = "\<lparr>fm_size = 8, fm_stride = 16, anchorsPerCell = 6\<rparr>"
  have l1: "length (grid_anchors 128 ?fm1) = 512"
    by (simp add: length_grid_anchors)
  have l2: "length (grid_anchors 128 ?fm2) = 384"
    by (simp add: length_grid_anchors)
  show "length (fst (generateAnchors new_FaceDetectionService)) = 896"
    by (simp add: generateAnchors_new l1 l2)
  show "generateAnchors (snd (generateAnchors new_FaceDetectionService))
        = generateAnchors new_FaceDetectionService"
    by (simp add: generateAnchors_new) (simp add: generateAnchors_def)
  {
    fix i :: nat
    assume i: "i < 512"
    have "fst (generateAnchors new_FaceDetectionService) ! i = grid_anchors 128 ?fm1 ! i"
      using i by (simp add: generateAnchors_new nth_append l1)
    also have "\<dots> = make_anchor 128 ?fm1 ((i mod 32) div 2) (i div 32)"
      using i nth_grid_anchors [of i ?fm1 128] by simp
    finally show "fst (generateAnchors new_FaceDetectionService) ! i =
        \<lparr>anchor_cx = ((real ((i mod 32) div 2) + 5 / 10) * 8) / 128,
         anchor_cy = ((real (i div 32) + 5 / 10) * 8) / 128,
         anchor_w = 8 / 128, anchor_h = 8 / 128\<rparr>"
      by (simp add: make_anchor_def)
  }
  {
    fix i :: nat
    assume i: "512 \<le> i \<and> i < 896"
    then have j: "i - 512 < 384" by arith
    have "fst (generateAnchors new_FaceDetectionService) ! i = grid_anchors 128 ?fm2 ! (i - 512)"
      using i by (simp add: generateAnchors_new nth_append l1)
    also have "\<dots> = make_anchor 128 ?fm2 (((i - 512) mod 48) div 6) ((i - 512) div 48)"
      using j nth_grid_anchors [of "i - 512" ?fm2 128] by simp
    finally show "fst (generateAnchors new_FaceDetectionService) ! i =
        \<lparr>anchor_cx = ((real (((i - 512) mod 48) div 6) + 5 / 10) * 16) / 128,
         anchor_cy = ((real ((i - 512) div 48) + 5 / 10) * 16) / 128,
         anchor_w = 16 / 128, anchor_h = 16 / 128\<rparr>"
      by (simp add: make_anchor_def)
  }
qed

text \<open>The first anchor, the second cell of the first row, and the last anchor.\<close>

theorem generateAnchors_layout_witness:
  "fst (generateAnchors new_FaceDetectionService) ! 0 =
     \<lparr>anchor_cx = 1 / 32, anchor_cy = 1 / 32, anchor_w = 1 / 16, anchor_h = 1 / 16\<rparr>
   \<and> fst (generateAnchors new_FaceDetectionService) ! 3 =
     \<lparr>anchor_cx = 3 / 32, anchor_cy = 1 / 32, anchor_w = 1 / 16, anchor_h = 1 / 16\<rparr>
   \<and> fst (generateAnchors new_FaceDetectionService) ! 895 =
     \<lparr>anchor_cx = 15 / 16, anchor_cy = 15 / 16, anchor_w = 1 / 8, anchor_h = 1 / 8\<rparr>"
proof -
  note t = generateAnchors_layout
  have a: "fst (generateAnchors new_FaceDetectionService) ! 0 =
     \<lparr>anchor_cx = 1 / 32, anchor_cy = 1 / 32, anchor_w = 1 / 16, anchor_h = 1 / 16\<rparr>"
    using t [THEN conjunct2, THEN conjunct1, rule_format, of 0] by simp
  have b: "fst (generateAnchors new_FaceDetectionService) ! 3 =
     \<lparr>anchor_cx = 3 / 32, anchor_cy = 1 / 32, anchor_w = 1 / 16, anchor_h = 1 / 16\<rparr>"
    using t [THEN conjunct2, THEN conjunct1, rule_format, of 3] by simp
  have c: "fst (generateAnchors new_FaceDetectionService) ! 895 =
     \<lparr>anchor_cx = 15 / 16, anchor_cy = 15 / 16, anchor_w = 1 / 8, anchor_h = 1 / 8\<rparr>"
    using t [THEN conjunct2, THEN conjunct2, THEN conjunct1, rule_format, of 895] by simp
  from a b c show ?thesis by blast
qed

section \<open>Properties of embedding post-processing\<close>

subsection \<open>The error of the sum of squares\<close>

lemma sum_list_bound:
  fixes f :: "'a \<Rightarrow> real"
  assumes "\<forall>x \<in> set xs. f x \<le> c"
  shows "(\<Sum>x\<leftarrow>xs. f x) \<le> of_nat (length xs) * c"
  using assms by (induction xs) (auto simp: algebra_simps)

lemma sum_list_abs_diff:
  fixes f g :: "'a \<Rightarrow> real"
  assumes "\<forall>x \<in> set xs. \<bar>f x - g x\<bar> \<le> d"
  shows "\<bar>(\<Sum>x\<leftarrow>xs. f x) - (\<Sum>x\<leftarrow>xs. g x)\<bar> \<le> of_nat (length xs) * d"
  using assms
proof (induction xs)
  case Nil
  show ?case by simp
next
  case (Cons x xs)
  then have "\<bar>f x - g x\<bar> \<le> d" and
    "\<bar>(\<Sum>x\<leftarrow>xs. f x) - (\<Sum>x\<leftarrow>xs. g x)\<bar> \<le> of_nat (length xs) * d"
    by simp_all
  then show ?case by (simp add: algebra_simps)
qed

lemma sum_list_squares_nonneg:
  fixes xs :: "real list"
  shows "0 \<le> (\<Sum>x\<leftarrow>xs. x * x)"
  by (induction xs) simp_all

lemma square_le_sum_list:
  fixes xs :: "real list"
  assumes "x \<in> set xs"
  shows "x * x \<le> (\<Sum>y\<leftarrow>xs. y * y)"
  using assms
proof (induction xs)
  case Nil
  then show ?case by simp
next
  case (Cons y ys)
  have rest: "0 \<le> (\<Sum>y\<leftarrow>ys. y * y)" by (rule sum_list_squares_nonneg)
  have head: "0 \<le> y * y" by simp
  show ?case
  proof (cases "x = y")
    case True
    with rest show ?thesis by simp
  next
    case False
    with Cons have "x * x \<le> (\<Sum>y\<leftarrow>ys. y * y)" by simp
    then have "x * x \<le> y * y + (\<Sum>y\<leftarrow>ys. y * y)"
      by (rule add_increasing [OF head])
    then show ?thesis by simp
  qed
qed

lemma sum_bounds:
  "0 < least_sum" "1152921504606846976 * tiny \<le> least_sum" "4 * most_sum \<le> huge"
  by (simp_all add: least_sum_def most_sum_def tiny_def huge_def)

lemma roundoff_of:
  assumes "0 \<le> s"
  shows "0 \<le> s * unit_roundoff" "9007199254740992 * (s * unit_roundoff) = s"
  using assms by (simp_all add: unit_roundoff_def)

text \<open>
  One iteration of the loop of \<open>l2Normalize\<close>. The exact sum \<open>A\<close> of the squares met
  so far and the accumulator \<open>a\<close> differ by at most \<open>k\<close> times
  \<open>4 * \<sigma> * 2^(-53) + 2 * 2^(-1075)\<close>, where \<open>\<sigma>\<close> bounds the exact sum; the iteration
  adds one such term to the difference, and nothing overflows.
\<close>

lemma sum_of_squares_step:
  assumes sigma: "least_sum \<le> \<sigma>" "\<sigma> \<le> most_sum"
    and acc: "\<bar>a - A\<bar> \<le> of_nat k * (4 * (\<sigma> * unit_roundoff) + 2 * tiny)" "0 \<le> A"
    and x: "A + x * x \<le> \<sigma>"
    and k: "k < 512"
  shows "\<exists>a'. js_add binary64 (Fin a) (js_mul binary64 (Fin x) (Fin x)) = Fin a'
    \<and> \<bar>a' - (A + x * x)\<bar> \<le> of_nat (Suc k) * (4 * (\<sigma> * unit_roundoff) + 2 * tiny)"
proof -
  let ?U = "\<sigma> * unit_roundoff"
  let ?c = "4 * ?U + 2 * tiny"
  have sq: "0 \<le> x * x" by simp
  have s0: "0 < \<sigma>" using sigma(1) sum_bounds(1) by linarith
  then have "0 \<le> \<sigma>" by simp
  note U = roundoff_of [OF this]
  note small = s0
  have c0: "0 \<le> ?c" using U(1) tiny_bounds(1) by linarith
  have "of_nat k * ?c \<le> 512 * ?c"
    using k c0 by (intro mult_right_mono) simp_all
  also have "\<dots> \<le> \<sigma>"
    using sigma(1) sum_bounds(2) U small tiny_bounds(1) by argo
  finally have kc: "of_nat k * ?c \<le> \<sigma>" .
  have "x * x \<le> huge"
    using x acc(2) sigma(2) sum_bounds(3) huge_bounds(1) by linarith
  then have "\<bar>x * x\<bar> \<le> huge"
    by simp
  from binary64_error [OF this] obtain s where
    s: "binary64 (x * x) = Fin s" "\<bar>s - x * x\<bar> \<le> \<bar>x * x\<bar> * unit_roundoff + tiny"
    by blast
  have "\<bar>x * x\<bar> \<le> \<sigma>"
    using x acc(2) sq by simp
  then have xs: "\<bar>x * x\<bar> * unit_roundoff \<le> ?U"
    by (intro mult_right_mono) (simp_all add: unit_roundoff_def)
  have s_err: "\<bar>s - x * x\<bar> \<le> ?U + tiny"
    using s(2) xs by linarith
  have t: "\<bar>a + s\<bar> \<le> 3 * \<sigma>"
    using acc x kc s_err sq sigma(1) sum_bounds(2) U small tiny_bounds(1) by linarith
  then have "\<bar>a + s\<bar> \<le> huge"
    using sigma(2) sum_bounds(3) huge_bounds(1) by linarith
  from binary64_error [OF this] obtain a' where
    a': "binary64 (a + s) = Fin a'" "\<bar>a' - (a + s)\<bar> \<le> \<bar>a + s\<bar> * unit_roundoff + tiny"
    by blast
  have "\<bar>a + s\<bar> * unit_roundoff \<le> 3 * \<sigma> * unit_roundoff"
    using t by (intro mult_right_mono) (simp_all add: unit_roundoff_def)
  then have "\<bar>a + s\<bar> * unit_roundoff \<le> 3 * ?U"
    by (simp add: mult.assoc)
  with a'(2) have a_err: "\<bar>a' - (a + s)\<bar> \<le> 3 * ?U + tiny"
    by linarith
  have "\<bar>a' - (A + x * x)\<bar> \<le> of_nat k * ?c + ?c"
    using a_err s_err acc(1) by linarith
  also have "\<dots> = of_nat (Suc k) * ?c"
    by (simp only: of_nat_Suc distrib_right mult_1)
  finally have "\<bar>a' - (A + x * x)\<bar> \<le> of_nat (Suc k) * ?c" .
  moreover have "js_add binary64 (Fin a) (js_mul binary64 (Fin x) (Fin x)) = Fin a'"
    by (simp add: s(1) a'(1))
  ultimately show ?thesis by blast
qed


lemma sum_of_squares_loop:
  assumes sigma: "least_sum \<le> \<sigma>" "\<sigma> \<le> most_sum"
  shows "\<bar>a - A\<bar> \<le> of_nat k * (4 * (\<sigma> * unit_roundoff) + 2 * tiny) \<Longrightarrow> 0 \<le> A
    \<Longrightarrow> A + (\<Sum>x\<leftarrow>xs. x * x) \<le> \<sigma> \<Longrightarrow> k + length xs \<le> 512
    \<Longrightarrow> \<exists>a'. fold (\<lambda>val norm. js_add binary64 norm (js_mul binary64 val val))
            (map Fin xs) (Fin a) = Fin a'
          \<and> \<bar>a' - (A + (\<Sum>x\<leftarrow>xs. x * x))\<bar>
              \<le> of_nat (k + length xs) * (4 * (\<sigma> * unit_roundoff) + 2 * tiny)"
proof (induction xs arbitrary: a A k)
  case Nil
  then show ?case by simp
next
  case (Cons x xs)
  have rest: "0 \<le> (\<Sum>x\<leftarrow>xs. x * x)" by (rule sum_list_squares_nonneg)
  have x: "A + x * x \<le> \<sigma>" using Cons.prems(3) rest by simp
  have k: "k < 512" using Cons.prems(4) by simp
  from sum_of_squares_step [OF sigma Cons.prems(1) Cons.prems(2) x k] obtain a2 where
    a2: "js_add binary64 (Fin a) (js_mul binary64 (Fin x) (Fin x)) = Fin a2"
      "\<bar>a2 - (A + x * x)\<bar> \<le> of_nat (Suc k) * (4 * (\<sigma> * unit_roundoff) + 2 * tiny)"
    by blast
  have "0 \<le> A + x * x" using Cons.prems(2) by simp
  moreover have "A + x * x + (\<Sum>x\<leftarrow>xs. x * x) \<le> \<sigma>" using Cons.prems(3) by simp
  moreover have "Suc k + length xs \<le> 512" using Cons.prems(4) by simp
  ultimately obtain a' where
    a': "fold (\<lambda>val norm. js_add binary64 norm (js_mul binary64 val val)) (map Fin xs) (Fin a2) = Fin a'"
      "\<bar>a' - (A + x * x + (\<Sum>x\<leftarrow>xs. x * x))\<bar>
         \<le> of_nat (Suc k + length xs) * (4 * (\<sigma> * unit_roundoff) + 2 * tiny)"
    using Cons.IH [OF a2(2)] by blast
  have "fold (\<lambda>val norm. js_add binary64 norm (js_mul binary64 val val)) (map Fin (x # xs)) (Fin a) = Fin a'"
    using a2(1) a'(1) by simp
  moreover have "\<bar>a' - (A + (\<Sum>x\<leftarrow>x # xs. x * x))\<bar>
         \<le> of_nat (k + length (x # xs)) * (4 * (\<sigma> * unit_roundoff) + 2 * tiny)"
    using a'(2) by (simp add: add.assoc)
  ultimately show ?case by blast
qed

text \<open>
  The sum of the squares of at most 512 finite numbers, computed in binary64, is within
  the fraction \<open>2^(-40)\<close> of the exact sum, when that lies between \<open>2^(-1000)\<close> and
  \<open>2^1010\<close>.
\<close>

lemma sum_of_squares_binary64:
  assumes "length xs \<le> 512" and "least_sum \<le> (\<Sum>x\<leftarrow>xs. x * x)"
    and "(\<Sum>x\<leftarrow>xs. x * x) \<le> most_sum"
  shows "\<exists>s. sum_of_squares binary64 (map Fin xs) = Fin s
    \<and> 1099511627776 * \<bar>s - (\<Sum>x\<leftarrow>xs. x * x)\<bar> \<le> (\<Sum>x\<leftarrow>xs. x * x)"
proof -
  let ?S = "\<Sum>x\<leftarrow>xs. x * x"
  let ?c = "4 * (?S * unit_roundoff) + 2 * tiny"
  have S0: "0 \<le> ?S" by (rule sum_list_squares_nonneg)
  note U = roundoff_of [OF S0]
  have c0: "0 \<le> ?c" using U(1) tiny_bounds(1) by linarith
  have "\<bar>0 - 0\<bar> \<le> of_nat 0 * ?c" by simp
  moreover have "(0::real) \<le> 0" by simp
  moreover have "0 + ?S \<le> ?S" by simp
  moreover have "0 + length xs \<le> 512" using assms(1) by simp
  ultimately obtain s where
    s: "fold (\<lambda>val norm. js_add binary64 norm (js_mul binary64 val val)) (map Fin xs) (Fin 0) = Fin s"
      "\<bar>s - (0 + ?S)\<bar> \<le> of_nat (0 + length xs) * ?c"
    using sum_of_squares_loop [OF assms(2) assms(3), of 0 0 0 xs] by blast
  have "of_nat (0 + length xs) * ?c \<le> 512 * ?c"
    using assms(1) c0 by (intro mult_right_mono) simp_all
  with s(2) have "\<bar>s - ?S\<bar> \<le> 512 * ?c" by simp
  then have "1099511627776 * \<bar>s - ?S\<bar> \<le> ?S"
    using U assms(2) sum_bounds(1) sum_bounds(2) tiny_bounds(1) by argo
  with s(1) show ?thesis by (simp add: sum_of_squares_def)
qed


subsection \<open>The error of the square root and of the quotients\<close>

lemma root_bounds:
  "0 < least_root" "least_root * least_root \<le> least_sum / 2"
  "tiny \<le> least_root * unit_roundoff"
  "0 < most_root" "2 * most_sum \<le> most_root * most_root" "most_root \<le> huge"
  by (simp_all add: least_root_def most_root_def least_sum_def most_sum_def tiny_def
      unit_roundoff_def huge_def)

lemma sqrt_binary64:
  assumes "least_sum / 2 \<le> S" and "S \<le> 2 * most_sum"
  shows "\<exists>r. binary64 (sqrt S) = Fin r \<and> 0 < r
    \<and> 1125899906842624 * \<bar>r * r - S\<bar> \<le> S"
proof -
  define s where "s = sqrt S"
  have S0: "0 < S" using assms(1) sum_bounds(1) by linarith
  then have s0: "0 < s" by (simp add: s_def)
  have ss: "s * s = S" using S0 by (simp add: s_def)
  have "least_root\<^sup>2 \<le> S"
    using root_bounds(2) assms(1) by (simp add: power2_eq_square)
  then have lo: "least_root \<le> s"
    unfolding s_def by (rule real_le_rsqrt)
  have "S \<le> most_root\<^sup>2"
    using root_bounds(5) assms(2) by (simp add: power2_eq_square)
  then have "s \<le> most_root"
    unfolding s_def using root_bounds(4) by (intro real_le_lsqrt) simp_all
  then have "\<bar>s\<bar> \<le> huge"
    using s0 root_bounds(6) by simp
  from binary64_error [OF this] obtain r where
    r: "binary64 s = Fin r" "\<bar>r - s\<bar> \<le> \<bar>s\<bar> * unit_roundoff + tiny"
    by blast
  have "0 \<le> s" using s0 by simp
  note V = roundoff_of [OF this]
  have "least_root * unit_roundoff \<le> s * unit_roundoff"
    using lo unit_roundoff_bounds(1) by (intro mult_right_mono) simp_all
  with r(2) root_bounds(3) s0 have err: "\<bar>r - s\<bar> \<le> 2 * (s * unit_roundoff)"
    by simp
  have hi: "r \<le> s * (4503599627370497 / 4503599627370496)"
    using err V by argo
  have lo: "s * (4503599627370495 / 4503599627370496) \<le> r"
    using err V by argo
  have r0: "0 < r"
    using lo s0 by (simp add: field_simps) 
  have "r * r \<le> s * (4503599627370497 / 4503599627370496) * (s * (4503599627370497 / 4503599627370496))"
    using hi r0 s0 by (intro mult_mono) simp_all
  also have "\<dots> = S * (4503599627370497 / 4503599627370496 * (4503599627370497 / 4503599627370496))"
    by (simp add: ss [symmetric])
  finally have up: "r * r \<le> S * (4503599627370497 / 4503599627370496 * (4503599627370497 / 4503599627370496))" .
  have "S * (4503599627370495 / 4503599627370496 * (4503599627370495 / 4503599627370496))
      = s * (4503599627370495 / 4503599627370496) * (s * (4503599627370495 / 4503599627370496))"
    by (simp add: ss [symmetric])
  also have "\<dots> \<le> r * r"
    using lo r0 s0 by (intro mult_mono) simp_all
  finally have down: "S * (4503599627370495 / 4503599627370496 * (4503599627370495 / 4503599627370496)) \<le> r * r" .
  have "1125899906842624 * \<bar>r * r - S\<bar> \<le> S"
    using up down S0 by argo
  with r(1) r0 show ?thesis unfolding s_def by blast
qed


lemma sum_list_scaled_squares:
  fixes r :: real
  shows "(\<Sum>x\<leftarrow>v. (x / r) * (x / r)) = (\<Sum>x\<leftarrow>v. x * x) / (r * r)"
  by (induction v) (simp_all add: add_divide_distrib)

text \<open>
  One component divided by the computed norm \<open>r\<close>, whose square is within the fraction
  \<open>2^(-39)\<close> of the exact sum of squares \<open>S\<close>.
\<close>

lemma division_binary64:
  assumes r: "0 < r" and rel: "549755813888 * \<bar>r * r - S\<bar> \<le> S" and x: "x * x \<le> S"
  shows "\<exists>w. binary64 (x / r) = Fin w
    \<and> \<bar>w * w - x / r * (x / r)\<bar> \<le> 7 / 2251799813685248"
proof -
  define q where "q = x / r"
  have R: "0 < r * r" using r by simp
  have "x * x \<le> 2 * (r * r)" using rel x by argo
  then have "x * x / (r * r) \<le> 2"
    using R by (simp add: pos_divide_le_eq)
  then have "q * q \<le> 2" by (simp add: q_def)
  then have "q\<^sup>2 \<le> 2\<^sup>2" by (simp add: power2_eq_square)
  then have q: "\<bar>q\<bar> \<le> 2"
    using abs_le_square_iff [of q 2] by simp
  then have "\<bar>q\<bar> \<le> huge" using huge_bounds(1) by linarith
  from binary64_error [OF this] obtain w where
    w: "binary64 q = Fin w" "\<bar>w - q\<bar> \<le> \<bar>q\<bar> * unit_roundoff + tiny"
    by blast
  have "\<bar>q\<bar> * unit_roundoff \<le> 2 * unit_roundoff"
    using q unit_roundoff_bounds(1) by (intro mult_right_mono) simp_all
  moreover have "tiny \<le> unit_roundoff"
    by (simp add: tiny_def unit_roundoff_def)
  ultimately have "\<bar>w - q\<bar> \<le> 3 * unit_roundoff"
    using w(2) by linarith
  then have d: "\<bar>w - q\<bar> \<le> 1 / 2251799813685248"
    by (simp add: unit_roundoff_def)
  then have a: "\<bar>w + q\<bar> \<le> 7" using q by linarith
  have "w * w - q * q = (w - q) * (w + q)" by (simp add: algebra_simps)
  then have "\<bar>w * w - q * q\<bar> = \<bar>w - q\<bar> * \<bar>w + q\<bar>" by (simp only: abs_mult)
  also have "\<dots> \<le> 1 / 2251799813685248 * 7"
    using d a by (intro mult_mono) simp_all
  finally have "\<bar>w * w - q * q\<bar> \<le> 7 / 2251799813685248" by simp
  with w(1) show ?thesis unfolding q_def by blast
qed

lemma sqrt_near_one:
  assumes "0 \<le> a"
  shows "\<bar>sqrt a - 1\<bar> \<le> \<bar>a - 1\<bar>"
proof -
  define t where "t = sqrt a"
  have t: "0 \<le> t" and a: "a = t * t" using assms by (simp_all add: t_def)
  have "\<bar>t - 1\<bar> * 1 \<le> \<bar>t - 1\<bar> * (t + 1)"
    using t by (intro mult_left_mono) simp_all
  also have "\<dots> = \<bar>(t - 1) * (t + 1)\<bar>"
    using t by (simp add: abs_mult)
  also have "\<dots> = \<bar>a - 1\<bar>"
    by (simp add: a algebra_simps)
  finally show ?thesis by (simp add: t_def)
qed

lemma component_bounds:
  "1 / 2 ^ 500 * (1 / 2 ^ 500) = least_sum" "512 * (2 ^ 500 * 2 ^ 500) \<le> most_sum"
  by (simp_all add: least_sum_def most_sum_def)

text \<open>
  \<open>l2Normalize\<close> in binary64, on at most 512 finite numbers of magnitude at most
  \<open>2^500\<close>, one of them of magnitude at least \<open>2^(-500)\<close>: the result consists of
  finite numbers and its Euclidean norm is within \<open>2^(-36)\<close> of 1.
\<close>

lemma l2Normalize_binary64:
  assumes len: "length xs \<le> 512"
    and up: "\<forall>x \<in> set xs. \<bar>x\<bar> \<le> 2 ^ 500"
    and low: "\<exists>x \<in> set xs. 1 / 2 ^ 500 \<le> \<bar>x\<bar>"
  shows "\<exists>ws. l2Normalize binary64 (map Fin xs) = map Fin ws
    \<and> \<bar>l2_norm ws - 1\<bar> \<le> 1 / 2 ^ 36"
proof -
  let ?S = "\<Sum>x\<leftarrow>xs. x * x"
  from low obtain x0 where x0: "x0 \<in> set xs" "1 / 2 ^ 500 \<le> \<bar>x0\<bar>" by blast
  have "1 / 2 ^ 500 * (1 / 2 ^ 500) \<le> \<bar>x0\<bar> * \<bar>x0\<bar>"
    using x0(2) by (intro mult_mono) simp_all
  then have "least_sum \<le> x0 * x0"
    by (simp only: component_bounds(1))
  also have "x0 * x0 \<le> ?S"
    using x0(1) by (rule square_le_sum_list)
  finally have S_lo: "least_sum \<le> ?S" .
  have "\<forall>x \<in> set xs. x * x \<le> 2 ^ 500 * 2 ^ 500"
  proof
    fix x assume "x \<in> set xs"
    with up have "\<bar>x\<bar> \<le> 2 ^ 500" by blast
    then have "\<bar>x\<bar> * \<bar>x\<bar> \<le> 2 ^ 500 * 2 ^ 500"
      by (intro mult_mono) simp_all
    then show "x * x \<le> 2 ^ 500 * 2 ^ 500" by simp
  qed
  then have "?S \<le> of_nat (length xs) * (2 ^ 500 * 2 ^ 500)"
    by (rule sum_list_bound)
  also have "\<dots> \<le> 512 * (2 ^ 500 * 2 ^ 500)"
    using len by (intro mult_right_mono) simp_all
  also note component_bounds(2)
  finally have S_hi: "?S \<le> most_sum" .
  have S0: "0 < ?S" using S_lo sum_bounds(1) by linarith
  from sum_of_squares_binary64 [OF len S_lo S_hi] obtain s where
    s: "sum_of_squares binary64 (map Fin xs) = Fin s"
      "1099511627776 * \<bar>s - ?S\<bar> \<le> ?S"
    by blast
  have "least_sum / 2 \<le> s" using s(2) S_lo by argo
  moreover have "s \<le> 2 * most_sum" using s(2) S_hi S0 by argo
  ultimately obtain r where
    r: "binary64 (sqrt s) = Fin r" "0 < r" "1125899906842624 * \<bar>r * r - s\<bar> \<le> s"
    using sqrt_binary64 by blast
  have rel: "549755813888 * \<bar>r * r - ?S\<bar> \<le> ?S"
    using r(3) s(2) by argo
  define w where "w = (\<lambda>x. fin_val (binary64 (x / r)))"
  have each: "binary64 (x / r) = Fin (w x) \<and> \<bar>w x * w x - x / r * (x / r)\<bar> \<le> 7 / 2251799813685248"
    if "x \<in> set xs" for x
  proof -
    have "x * x \<le> ?S" using that by (rule square_le_sum_list)
    from division_binary64 [OF r(2) rel this] show ?thesis
      unfolding w_def by auto
  qed
  have s0: "\<not> s < 0" using s(2) S0 by argo
  have "l2Normalize binary64 (map Fin xs) = map (\<lambda>x. binary64 (x / r)) xs"
    using r(1) r(2) s0 by (simp add: l2Normalize_def s(1) falsy_def comp_def)
  also have "\<dots> = map (\<lambda>x. Fin (w x)) xs"
    using each by (intro map_cong) simp_all
  finally have out: "l2Normalize binary64 (map Fin xs) = map Fin (map w xs)"
    by (simp add: comp_def)
  have "\<bar>(\<Sum>x\<leftarrow>xs. w x * w x) - (\<Sum>x\<leftarrow>xs. x / r * (x / r))\<bar>
      \<le> of_nat (length xs) * (7 / 2251799813685248)"
    using each by (intro sum_list_abs_diff) simp
  also have "\<dots> \<le> 512 * (7 / 2251799813685248)"
    using len by (intro mult_right_mono) simp_all
  finally have diff: "\<bar>(\<Sum>x\<leftarrow>xs. w x * w x) - ?S / (r * r)\<bar> \<le> 512 * (7 / 2251799813685248)"
    by (simp only: sum_list_scaled_squares)
  have R: "0 < r * r" using r(2) by simp
  have "?S \<le> (274877906945 / 274877906944) * (r * r)"
    using rel S0 by argo
  then have q_hi: "?S / (r * r) \<le> 274877906945 / 274877906944"
    using R by (simp only: pos_divide_le_eq)
  have "(274877906943 / 274877906944) * (r * r) \<le> ?S"
    using rel S0 by argo
  then have q_lo: "274877906943 / 274877906944 \<le> ?S / (r * r)"
    using R by (simp only: pos_le_divide_eq)
  have "\<bar>(\<Sum>x\<leftarrow>xs. w x * w x) - 1\<bar> \<le> 1 / 68719476736"
    using diff q_hi q_lo by argo
  then have near: "\<bar>(\<Sum>x\<leftarrow>xs. w x * w x) - 1\<bar> \<le> 1 / 2 ^ 36"
    by simp
  have "0 \<le> (\<Sum>x\<leftarrow>map w xs. x * x)" by (rule sum_list_squares_nonneg)
  then have "\<bar>l2_norm (map w xs) - 1\<bar> \<le> \<bar>(\<Sum>x\<leftarrow>map w xs. x * x) - 1\<bar>"
    unfolding l2_norm_def by (rule sqrt_near_one)
  also have "\<dots> \<le> 1 / 2 ^ 36"
    using near by (simp add: comp_def)
  finally show ?thesis using out by blast
qed

subsection \<open>Averaging\<close>

text \<open>A loop that replaces each of the first \<open>n\<close> elements by a function of itself.\<close>

lemma length_fold_self_update:
  "length (fold (\<lambda>i e. e[i := h i (e ! i)]) js e0) = length e0"
  by (induction js arbitrary: e0) simp_all

lemma nth_fold_self_update:
  assumes "j < length e0"
  shows "fold (\<lambda>i e. e[i := h i (e ! i)]) [0..<n] e0 ! j = (if j < n then h j (e0 ! j) else e0 ! j)"
  using assms
proof (induction n)
  case 0
  show ?case by simp
next
  case (Suc n)
  let ?r = "fold (\<lambda>i e. e[i := h i (e ! i)]) [0..<n] e0"
  have IH: "?r ! j = (if j < n then h j (e0 ! j) else e0 ! j)"
    using Suc by simp
  have len: "length ?r = length e0"
    by (rule length_fold_self_update)
  show ?case
  proof (cases "j = n")
    case True
    then have "fold (\<lambda>i e. e[i := h i (e ! i)]) [0..<Suc n] e0 ! j = h n (?r ! n)"
      using len Suc.prems by simp
    with IH True show ?thesis by simp
  next
    case False
    then have "fold (\<lambda>i e. e[i := h i (e ! i)]) [0..<Suc n] e0 ! j = ?r ! j"
      by simp
    with IH False show ?thesis by auto
  qed
qed

lemma length_average_embeddings:
  "length (average_embeddings rnd e f) = length e"
  unfolding average_embeddings_def
  by (rule length_fold_self_update
      [of "\<lambda>i x. js_mul rnd (Fin (5 / 10)) (js_add rnd x (f ! i))"])

lemma nth_average_embeddings:
  assumes "j < length e"
  shows "average_embeddings rnd e f ! j =
    (if j < length f then js_mul rnd (Fin (5 / 10)) (js_add rnd (e ! j) (f ! j)) else e ! j)"
  unfolding average_embeddings_def
  using nth_fold_self_update [OF assms,
      of "\<lambda>i x. js_mul rnd (Fin (5 / 10)) (js_add rnd x (f ! i))" "min (length e) (length f)"]
    assms
  by simp

subsection \<open>The norm of a produced embedding\<close>

text \<open>
  Claim C5, as the code has it, in binary64. When the vector handed to \<open>l2Normalize\<close>
  (the raw embedding, averaged with the embedding of the mirrored image when test-time
  augmentation is on) has at most 512 components, the dimension of an embedding, all of
  them finite and of magnitude at most \<open>2^500\<close>, and one of them of magnitude at least
  \<open>2^(-500)\<close>, the embedding produced consists of finite numbers and its L2 norm is
  within \<open>1e-4\<close> of 1. The nonzero numbers of a \<open>Float32Array\<close> have magnitudes
  between \<open>2^(-149)\<close> and \<open>2^128\<close>.
\<close>

theorem generateEmbedding_unit_norm:
  assumes "raw_embedding binary64 env runInference preprocessedData = map Fin v"
    and "length v \<le> 512"
    and "\<forall>x \<in> set v. \<bar>x\<bar> \<le> 2 ^ 500"
    and "\<exists>x \<in> set v. 1 / 2 ^ 500 \<le> \<bar>x\<bar>"
  shows "\<exists>w. generateEmbedding binary64 env runInference preprocessedData = map Fin w
    \<and> \<bar>l2_norm w - 1\<bar> \<le> 1 / 10000"
proof -
  from l2Normalize_binary64 [OF assms(2) assms(3) assms(4)] obtain w where
    w: "l2Normalize binary64 (map Fin v) = map Fin w" "\<bar>l2_norm w - 1\<bar> \<le> 1 / 2 ^ 36"
    by blast
  have "(1::real) / 2 ^ 36 \<le> 1 / 10000" by simp
  with w(2) have "\<bar>l2_norm w - 1\<bar> \<le> 1 / 10000" by linarith
  with w(1) show ?thesis
    unfolding generateEmbedding_def assms(1) by blast
qed

text \<open>
  A 2 by 2 image: its mirrored pixels, and the planar tensor of the mirrored image.
\<close>

lemma flip_example:
  "flipHorizontal
     [Fin 1, Fin 2, Fin 3, Fin 4, Fin 5, Fin 6, Fin 7, Fin 8, Fin 9, Fin 10, Fin 11, Fin 12] 2 2
   = [Fin 4, Fin 5, Fin 6, Fin 1, Fin 2, Fin 3, Fin 10, Fin 11, Fin 12, Fin 7, Fin 8, Fin 9]"
  by (simp add: flipHorizontal_def typed_read_def upt_rec numeral_nat)

lemma convert_example:
  "convertNHWCtoNCHW
     [Fin 4, Fin 5, Fin 6, Fin 1, Fin 2, Fin 3, Fin 10, Fin 11, Fin 12, Fin 7, Fin 8, Fin 9] 2 2
     [0, 1, 2]
   = [Fin 4, Fin 1, Fin 10, Fin 7, Fin 5, Fin 2, Fin 11, Fin 8, Fin 6, Fin 3, Fin 12, Fin 9]"
  by (simp add: convertNHWCtoNCHW_def typed_read_def upt_rec numeral_nat)

lemma binary64_0: "binary64 0 = Fin 0"
  by (simp add: binary64_def)

text \<open>Two opposite raw embeddings average to the zero vector.\<close>

lemma average_opposite:
  "average_embeddings binary64 (Fin 1 # replicate 511 (Fin 0)) (Fin (- 1) # replicate 511 (Fin 0))
     = replicate 512 (Fin 0)"
proof (rule nth_equalityI)
  show "length (average_embeddings binary64 (Fin 1 # replicate 511 (Fin 0))
        (Fin (- 1) # replicate 511 (Fin 0)))
      = length (replicate 512 (Fin 0))"
    by (simp add: length_average_embeddings)
next
  fix j
  assume "j < length (average_embeddings binary64 (Fin 1 # replicate 511 (Fin 0))
        (Fin (- 1) # replicate 511 (Fin 0)))"
  then have j: "j < 512" by (simp add: length_average_embeddings)
  then have "average_embeddings binary64 (Fin 1 # replicate 511 (Fin 0))
        (Fin (- 1) # replicate 511 (Fin 0)) ! j
      = js_mul binary64 (Fin (5 / 10))
          (js_add binary64 ((Fin 1 # replicate 511 (Fin 0)) ! j)
             ((Fin (- 1) # replicate 511 (Fin 0)) ! j))"
    by (simp add: nth_average_embeddings)
  also have "\<dots> = Fin 0"
    using j by (cases j) (simp_all add: binary64_0)
  finally show "average_embeddings binary64 (Fin 1 # replicate 511 (Fin 0))
        (Fin (- 1) # replicate 511 (Fin 0)) ! j
      = replicate 512 (Fin 0) ! j"
    using j by simp
qed

text \<open>
  The loop of \<open>l2Normalize\<close> over zeros leaves a zero and an infinity as they are.
\<close>

lemma sum_of_squares_zeros:
  "fold (\<lambda>val norm. js_add binary64 norm (js_mul binary64 val val)) (replicate n (Fin 0)) (Fin 0)
     = Fin 0"
  by (induction n) (simp_all add: binary64_0)

lemma sum_of_squares_zeros_infinity:
  "fold (\<lambda>val norm. js_add binary64 norm (js_mul binary64 val val)) (replicate n (Fin 0))
     PosInfinity = PosInfinity"
  by (induction n) (simp_all add: binary64_0)

text \<open>The zero vector is returned as it is: its norm is replaced by one.\<close>

lemma l2Normalize_zero:
  "l2Normalize binary64 (replicate n (Fin 0)) = replicate n (Fin 0)"
proof -
  have "sum_of_squares binary64 (replicate n (Fin 0)) = Fin 0"
    unfolding sum_of_squares_def by (rule sum_of_squares_zeros)
  then show ?thesis
    by (simp add: l2Normalize_def binary64_0 falsy_def)
qed

text \<open>
  The rounding of a number of a given binade, before any simplification of the grid.
\<close>

lemma binary64_at:
  fixes x :: real
  assumes "2 powi e \<le> \<bar>x\<bar>" and "\<bar>x\<bar> < 2 powi (e + 1)"
    and "r = of_int (round_ties_even (x / 2 powi (max e (- 1022) - 52)))
          * 2 powi (max e (- 1022) - 52)"
  shows "binary64 x =
    (if 2 ^ 1024 \<le> \<bar>r\<bar> then (if 0 < x then PosInfinity else NegInfinity) else Fin r)"
proof -
  have "(0::real) < 2 powi e" by simp
  with assms(1) have "0 < \<bar>x\<bar>" by linarith
  then have nz: "x \<noteq> 0" by simp
  show ?thesis
    using nz unfolding binary64_def Let_def floor_log2 [OF assms(1) assms(2)] assms(3)
    by (simp only: if_False)
qed

text \<open>
  The square of \<open>2^(-1000)\<close> is rounded to zero, \<open>2^(-1000)\<close> itself is a binary64
  number, and the square of \<open>2^600\<close> overflows.
\<close>

lemma binary64_tiny_square: "binary64 (1 / 2 ^ 2000) = Fin 0"
proof -
  have "round_ties_even (1 / 2 ^ 2000 / 2 powi (max (- 2000) (- 1022) - 52)) = 0"
    by (rule round_ties_even_nearest) (simp_all add: power_int_minus)
  then have r: "(0::real) = of_int (round_ties_even (1 / 2 ^ 2000 / 2 powi (max (- 2000) (- 1022) - 52)))
          * 2 powi (max (- 2000) (- 1022) - 52)"
    by simp
  have "binary64 (1 / 2 ^ 2000) =
    (if 2 ^ 1024 \<le> \<bar>0::real\<bar> then (if (0::real) < 1 / 2 ^ 2000 then PosInfinity else NegInfinity)
     else Fin 0)"
    using _ _ r by (rule binary64_at) (simp_all add: power_int_minus)
  then show ?thesis
    by simp
qed

lemma binary64_tiny: "binary64 (1 / 2 ^ 1000) = Fin (1 / 2 ^ 1000)"
proof -
  have "round_ties_even (1 / 2 ^ 1000 / 2 powi (max (- 1000) (- 1022) - 52))
      = round_ties_even (of_int (2 ^ 52))"
    by (simp add: power_int_minus)
  then have "round_ties_even (1 / 2 ^ 1000 / 2 powi (max (- 1000) (- 1022) - 52)) = 2 ^ 52"
    by (simp only: round_ties_even_of_int)
  then have r: "(1 / 2 ^ 1000 :: real) = of_int (round_ties_even (1 / 2 ^ 1000 / 2 powi (max (- 1000) (- 1022) - 52)))
          * 2 powi (max (- 1000) (- 1022) - 52)"
    by (simp add: power_int_minus)
  have "binary64 (1 / 2 ^ 1000) =
    (if 2 ^ 1024 \<le> \<bar>1 / 2 ^ 1000 :: real\<bar> then (if (0::real) < 1 / 2 ^ 1000 then PosInfinity else NegInfinity)
     else Fin (1 / 2 ^ 1000))"
    using _ _ r by (rule binary64_at) (simp_all add: power_int_minus)
  then show ?thesis
    by simp
qed

lemma binary64_huge_square: "binary64 (2 ^ 1200) = PosInfinity"
proof -
  have "round_ties_even (2 ^ 1200 / 2 powi (max 1200 (- 1022) - 52))
      = round_ties_even (of_int (2 ^ 52))"
    by simp
  then have "round_ties_even (2 ^ 1200 / 2 powi (max 1200 (- 1022) - 52)) = 2 ^ 52"
    by (simp only: round_ties_even_of_int)
  then have r: "(2 ^ 1200 :: real) = of_int (round_ties_even (2 ^ 1200 / 2 powi (max 1200 (- 1022) - 52)))
          * 2 powi (max 1200 (- 1022) - 52)"
    by simp
  have "binary64 (2 ^ 1200) =
    (if 2 ^ 1024 \<le> \<bar>2 ^ 1200 :: real\<bar> then (if (0::real) < 2 ^ 1200 then PosInfinity else NegInfinity)
     else Fin (2 ^ 1200))"
    using _ _ r by (rule binary64_at) simp_all
  then show ?thesis
    by simp
qed

text \<open>
  A vector whose squares all round to zero is returned as it is, like the zero vector.
\<close>

lemma l2Normalize_tiny:
  "l2Normalize binary64 (Fin (1 / 2 ^ 1000) # replicate 511 (Fin 0))
     = Fin (1 / 2 ^ 1000) # replicate 511 (Fin 0)"
proof -
  define t :: real where "t = 1 / 2 ^ 1000"
  have "t * t = 1 / 2 ^ 2000" by (simp add: t_def)
  then have sq: "binary64 (t * t) = Fin 0" by (simp only: binary64_tiny_square)
  have bt: "binary64 t = Fin t" unfolding t_def by (rule binary64_tiny)
  have "sum_of_squares binary64 (Fin t # replicate 511 (Fin 0)) = Fin 0"
    unfolding sum_of_squares_def fold.simps comp_apply js_mul.simps sq js_add.simps add_0_left
      binary64_0
    by (rule sum_of_squares_zeros)
  then have "l2Normalize binary64 (Fin t # replicate 511 (Fin 0)) = Fin t # replicate 511 (Fin 0)"
    by (simp add: l2Normalize_def binary64_0 falsy_def bt)
  then show ?thesis unfolding t_def .
qed

text \<open>
  A vector with a square that overflows has the norm \<open>Infinity\<close> and is sent to the
  zero vector.
\<close>

lemma l2Normalize_huge:
  "l2Normalize binary64 (Fin (2 ^ 600) # replicate 511 (Fin 0)) = replicate 512 (Fin 0)"
proof -
  define t :: real where "t = 2 ^ 600"
  have "t * t = 2 ^ 1200" by (simp add: t_def)
  then have sq: "binary64 (t * t) = PosInfinity" by (simp only: binary64_huge_square)
  have "sum_of_squares binary64 (Fin t # replicate 511 (Fin 0)) = PosInfinity"
    unfolding sum_of_squares_def fold.simps comp_apply js_mul.simps sq js_add.simps
    by (rule sum_of_squares_zeros_infinity)
  then have "l2Normalize binary64 (Fin t # replicate 511 (Fin 0))
      = Fin 0 # replicate 511 (Fin 0)"
    by (simp add: l2Normalize_def falsy_def)
  also have "\<dots> = replicate 512 (Fin 0)"
    by (simp add: numeral_eq_Suc)
  finally show ?thesis unfolding t_def .
qed

lemma l2_norm_zero: "l2_norm (replicate 512 0) = 0"
  by (simp add: l2_norm_def sum_list_replicate)

lemma l2_norm_tiny: "l2_norm (1 / 2 ^ 1000 # replicate 511 0) = 1 / 2 ^ 1000"
proof -
  define t :: real where "t = 1 / 2 ^ 1000"
  have "0 \<le> t" by (simp add: t_def)
  then have "l2_norm (t # replicate 511 0) = t"
    by (simp add: l2_norm_def sum_list_replicate)
  then show ?thesis unfolding t_def .
qed

text \<open>
  Against claim C5 as stated, on finite nonzero raw embeddings of 512 components, in
  three ways. With the default configuration, the recognizer answering \<open>[1, 0, ..., 0]\<close> for the
  image and \<open>[-1, 0, ..., 0]\<close> for its mirror image: the average is the zero vector,
  whose norm \<open>l2Normalize\<close> replaces by one, so the embedding produced is the zero
  vector, of norm 0. With test-time augmentation off, the recognizer answering
  \<open>[2^(-1000), 0, ..., 0]\<close>: the square is rounded to zero, the norm is replaced by
  one, and the embedding produced is the raw embedding, of norm \<open>2^(-1000)\<close>. With
  test-time augmentation off, the recognizer answering \<open>[2^600, 0, ..., 0]\<close>: the
  square overflows, the norm is \<open>Infinity\<close>, and the embedding produced is the zero
  vector.
\<close>

theorem generateEmbedding_norm_counterexample:
  "generateEmbedding binary64 default_environment
     (recognizer_answers
        [Fin 1, Fin 4, Fin 7, Fin 10, Fin 2, Fin 5, Fin 8, Fin 11, Fin 3, Fin 6, Fin 9, Fin 12]
        (Fin 1 # replicate 511 (Fin 0)) (Fin (- 1) # replicate 511 (Fin 0)))
     \<lparr>nchw = [Fin 1, Fin 4, Fin 7, Fin 10, Fin 2, Fin 5, Fin 8, Fin 11,
              Fin 3, Fin 6, Fin 9, Fin 12],
      nhwc = Some [Fin 1, Fin 2, Fin 3, Fin 4, Fin 5, Fin 6, Fin 7, Fin 8, Fin 9,
                   Fin 10, Fin 11, Fin 12],
      size = 2\<rparr>
     = map Fin (replicate 512 0)
   \<and> l2_norm (replicate 512 0) = 0
   \<and> generateEmbedding binary64 (default_environment\<lparr>ARC_TTA_FLIP := False\<rparr>)
     (recognizer_answers [Fin 1, Fin 2, Fin 3]
        (Fin (1 / 2 ^ 1000) # replicate 511 (Fin 0)) (Fin (1 / 2 ^ 1000) # replicate 511 (Fin 0)))
     \<lparr>nchw = [Fin 1, Fin 2, Fin 3], nhwc = Some [Fin 1, Fin 2, Fin 3], size = 1\<rparr>
     = map Fin (1 / 2 ^ 1000 # replicate 511 0)
   \<and> l2_norm (1 / 2 ^ 1000 # replicate 511 0) = 1 / 2 ^ 1000
   \<and> generateEmbedding binary64 (default_environment\<lparr>ARC_TTA_FLIP := False\<rparr>)
     (recognizer_answers [Fin 1, Fin 2, Fin 3]
        (Fin (2 ^ 600) # replicate 511 (Fin 0)) (Fin (2 ^ 600) # replicate 511 (Fin 0)))
     \<lparr>nchw = [Fin 1, Fin 2, Fin 3], nhwc = Some [Fin 1, Fin 2, Fin 3], size = 1\<rparr>
     = map Fin (replicate 512 0)"
proof (intro conjI)
  let ?run = "recognizer_answers
        [Fin 1, Fin 4, Fin 7, Fin 10, Fin 2, Fin 5, Fin 8, Fin 11, Fin 3, Fin 6, Fin 9, Fin 12]
        (Fin 1 # replicate 511 (Fin 0)) (Fin (- 1) # replicate 511 (Fin 0))"
  let ?pre = "\<lparr>nchw = [Fin 1, Fin 4, Fin 7, Fin 10, Fin 2, Fin 5, Fin 8, Fin 11,
              Fin 3, Fin 6, Fin 9, Fin 12],
      nhwc = Some [Fin 1, Fin 2, Fin 3, Fin 4, Fin 5, Fin 6, Fin 7, Fin 8, Fin 9,
                   Fin 10, Fin 11, Fin 12],
      size = 2\<rparr>"
  have "raw_embedding binary64 default_environment ?run ?pre
      = average_embeddings binary64 (Fin 1 # replicate 511 (Fin 0))
          (Fin (- 1) # replicate 511 (Fin 0))"
    by (simp add: raw_embedding_def default_environment_def flip_example convert_example
        recognizer_answers_def del: One_nat_def)
  then have "raw_embedding binary64 default_environment ?run ?pre = replicate 512 (Fin 0)"
    by (simp only: average_opposite)
  then show "generateEmbedding binary64 default_environment ?run ?pre = map Fin (replicate 512 0)"
    by (simp add: generateEmbedding_def l2Normalize_zero)
next
  show "l2_norm (replicate 512 0) = 0"
    by (rule l2_norm_zero)
next
  let ?env = "default_environment\<lparr>ARC_TTA_FLIP := False\<rparr>"
  let ?run = "recognizer_answers [Fin 1, Fin 2, Fin 3]
        (Fin (1 / 2 ^ 1000) # replicate 511 (Fin 0)) (Fin (1 / 2 ^ 1000) # replicate 511 (Fin 0))"
  let ?pre = "\<lparr>nchw = [Fin 1, Fin 2, Fin 3], nhwc = Some [Fin 1, Fin 2, Fin 3], size = 1\<rparr>"
  have "raw_embedding binary64 ?env ?run ?pre = Fin (1 / 2 ^ 1000) # replicate 511 (Fin 0)"
    unfolding raw_embedding_def recognizer_answers_def by (simp add: Let_def)
  then have "generateEmbedding binary64 ?env ?run ?pre
      = Fin (1 / 2 ^ 1000) # replicate 511 (Fin 0)"
    unfolding generateEmbedding_def by (simp only: l2Normalize_tiny)
  then show "generateEmbedding binary64 ?env ?run ?pre = map Fin (1 / 2 ^ 1000 # replicate 511 0)"
    by (simp only: list.map map_replicate)
next
  show "l2_norm (1 / 2 ^ 1000 # replicate 511 0) = 1 / 2 ^ 1000"
    by (rule l2_norm_tiny)
next
  let ?env = "default_environment\<lparr>ARC_TTA_FLIP := False\<rparr>"
  let ?run = "recognizer_answers [Fin 1, Fin 2, Fin 3]
        (Fin (2 ^ 600) # replicate 511 (Fin 0)) (Fin (2 ^ 600) # replicate 511 (Fin 0))"
  let ?pre = "\<lparr>nchw = [Fin 1, Fin 2, Fin 3], nhwc = Some [Fin 1, Fin 2, Fin 3], size = 1\<rparr>"
  have "raw_embedding binary64 ?env ?run ?pre = Fin (2 ^ 600) # replicate 511 (Fin 0)"
    unfolding raw_embedding_def recognizer_answers_def by (simp add: Let_def)
  then have "generateEmbedding binary64 ?env ?run ?pre = replicate 512 (Fin 0)"
    unfolding generateEmbedding_def by (simp only: l2Normalize_huge)
  then show "generateEmbedding binary64 ?env ?run ?pre = map Fin (replicate 512 0)"
    by (simp only: map_replicate)
qed

text \<open>The roundings met when \<open>[3, 4]\<close> is averaged with itself.\<close>

lemma binary64_4: "binary64 4 = Fin 4"
proof -
  have "round_ties_even (4 * 2 ^ (52 - 2)) = 2 ^ 52"
    using round_ties_even_of_int [of "2 ^ 52"] by simp
  then show ?thesis
    using binary64_binade [of 2 4] by simp
qed

lemma binary64_6: "binary64 6 = Fin 6"
proof -
  have "round_ties_even (6 * 2 ^ (52 - 2)) = 6 * 2 ^ 50"
    using round_ties_even_of_int [of "6 * 2 ^ 50"] by simp
  then show ?thesis
    using binary64_binade [of 2 6] by simp
qed

lemma binary64_8: "binary64 8 = Fin 8"
proof -
  have "round_ties_even (8 * 2 ^ (52 - 3)) = 2 ^ 52"
    using round_ties_even_of_int [of "2 ^ 52"] by simp
  then show ?thesis
    using binary64_binade [of 3 8] by simp
qed

text \<open>
  A recognizer that answers \<open>[3, 4]\<close> for every tensor; the average of the two answers is
  \<open>[3, 4]\<close> again.
\<close>

theorem generateEmbedding_unit_norm_witness:
  "(\<exists>w. generateEmbedding binary64 default_environment
      (recognizer_answers [Fin 1, Fin 2, Fin 3] [Fin 3, Fin 4] [Fin 3, Fin 4])
      \<lparr>nchw = [Fin 1, Fin 2, Fin 3], nhwc = Some [Fin 1, Fin 2, Fin 3], size = 1\<rparr> = map Fin w
      \<and> \<bar>l2_norm w - 1\<bar> \<le> 1 / 10000)
   \<and> raw_embedding binary64 default_environment
      (recognizer_answers [Fin 1, Fin 2, Fin 3] [Fin 3, Fin 4] [Fin 3, Fin 4])
      \<lparr>nchw = [Fin 1, Fin 2, Fin 3], nhwc = Some [Fin 1, Fin 2, Fin 3], size = 1\<rparr>
      = [Fin 3, Fin 4]"
proof -
  let ?run = "recognizer_answers [Fin 1, Fin 2, Fin 3] [Fin 3, Fin 4] [Fin 3, Fin 4]"
  let ?pre = "\<lparr>nchw = [Fin 1, Fin 2, Fin 3], nhwc = Some [Fin 1, Fin 2, Fin 3], size = 1\<rparr>"
  have raw: "raw_embedding binary64 default_environment ?run ?pre = map Fin [3, 4]"
    by (simp add: raw_embedding_def default_environment_def average_embeddings_def
        recognizer_answers_def numeral_2_eq_2 binary64_3 binary64_4 binary64_6 binary64_8)
  have len: "length [3, 4 :: real] \<le> 512" by simp
  have up: "\<forall>x \<in> set [3, 4 :: real]. \<bar>x\<bar> \<le> 2 ^ 500" by simp
  have low: "\<exists>x \<in> set [3, 4 :: real]. 1 / 2 ^ 500 \<le> \<bar>x\<bar>" by simp
  from generateEmbedding_unit_norm [OF raw len up low] raw show ?thesis by simp
qed

end
